theory Spec2Isabelle
  imports Main "HOL-Library.Word"
begin

unbundle bit_operations_syntax

section \<open>MiniTrace: data model\<close>

text \<open>
  The embedding follows \<^verbatim>\<open>runtime/mini_trace.cc\<close>. A \<^verbatim>\<open>uint8_t*\<close> coverage array is the
  list of the bytes of its allocation; a read or a write past the allocation is undefined
  behaviour in C++ and is the error value \<open>OutOfBounds\<close> here.
\<close>

type_synonym u8 = "8 word"
type_synonym u16 = "16 word"
type_synonym u32 = "32 word"

datatype error = OutOfBounds

text \<open>
  What \<^verbatim>\<open>DumpCoverageData(std::ostream&, ArtMethod*)\<close> asks of an \<^verbatim>\<open>ArtMethod\<close>:
  its address (printed with \<^verbatim>\<open>%p\<close>), \<^verbatim>\<open>IsMiniTraceable()\<close>, whether \<^verbatim>\<open>GetCodeItem()\<close> is
  non-null, \<^verbatim>\<open>GetCoverageData()\<close> (\<open>None\<close> is the null pointer),
  \<^verbatim>\<open>DexInstructions().InsnsSizeInCodeUnits()\<close> (a 32-bit count in the dex accessor, which the
  function stores in a \<^verbatim>\<open>uint16_t\<close>), and the four strings of the line:
  \<^verbatim>\<open>PrettyDescriptor(GetDeclaringClassDescriptor())\<close>, \<^verbatim>\<open>GetName()\<close>,
  \<^verbatim>\<open>GetSignature().ToString()\<close> and \<^verbatim>\<open>GetDeclaringClassSourceFile()\<close>.
\<close>

record ArtMethod =
  method_addr :: nat
  IsMiniTraceable :: bool
  has_code_item :: bool
  GetCoverageData :: "u8 list option"
  InsnsSizeInCodeUnits :: u32
  pretty_descriptor :: string
  GetName :: string
  GetSignature :: string
  GetDeclaringClassSourceFile :: string

section \<open>Text formatting\<close>

definition digit_char :: "nat \<Rightarrow> char" where
  "digit_char d = ''0123456789abcdef'' ! d"

function show_base :: "nat \<Rightarrow> nat \<Rightarrow> string" where
  "show_base b n =
     (if b < 2 \<or> n < b then [digit_char n]
      else show_base b (n div b) @ [digit_char (n mod b)])"
  by pat_completeness auto
termination
  by (relation "measure (\<lambda>(b, n). n)") auto

declare show_base.simps [simp del]

text \<open>\<^verbatim>\<open>%d\<close> of a non-negative \<^verbatim>\<open>int\<close>, and \<^verbatim>\<open>%p\<close> of a non-null pointer.\<close>

definition show_dec :: "nat \<Rightarrow> string" where
  "show_dec n = show_base 10 n"

definition show_ptr :: "nat \<Rightarrow> string" where
  "show_ptr a = ''0x'' @ show_base 16 a"

definition TAB :: char where
  "TAB = CHR 0x09"

definition NL :: char where
  "NL = CHR 0x0A"

text \<open>
  \<^verbatim>\<open>StringPrintf("%p\t%s\t%s\t%s\t%s\t%d\t", method, ..., insns_size)\<close>
\<close>

definition line_header :: "ArtMethod \<Rightarrow> u16 \<Rightarrow> string" where
  "line_header method insns_size =
     show_ptr (method_addr method) @ [TAB] @ pretty_descriptor method @ [TAB] @
     GetName method @ [TAB] @ GetSignature method @ [TAB] @
     GetDeclaringClassSourceFile method @ [TAB] @ show_dec (unat insns_size) @ [TAB]"

section \<open>The per-method dump\<close>

text \<open>
  \<^verbatim>\<open>uint32_t* p = reinterpret_cast<uint32_t*>(data); ... p[i]\<close>: the four bytes
  \<open>4 * i\<close> to \<open>4 * i + 3\<close> of the array, little-endian (the byte order of every Android
  target); \<open>None\<close> when one of them is outside the allocation.
\<close>

definition read_u32 :: "u8 list \<Rightarrow> nat \<Rightarrow> u32 option" where
  "read_u32 data i =
     (if 4 * i + 3 < length data
      then Some (ucast (data ! (4 * i))
                 OR push_bit 8 (ucast (data ! (4 * i + 1)))
                 OR push_bit 16 (ucast (data ! (4 * i + 2)))
                 OR push_bit 24 (ucast (data ! (4 * i + 3))))
      else None)"

text \<open>
  \<^verbatim>\<open>for (int i = 0; i <= length; i++) { if (p[i] != 0) { visited = true; break; } }\<close>
  started at \<open>i\<close>; the result is \<^verbatim>\<open>visited\<close>.
\<close>

function scan_loop :: "nat \<Rightarrow> nat \<Rightarrow> u8 list \<Rightarrow> error + bool" where
  "scan_loop i len data =
     (if i \<le> len
      then (case read_u32 data i of
              None \<Rightarrow> Inl OutOfBounds
            | Some w \<Rightarrow> if w \<noteq> 0 then Inr True else scan_loop (i + 1) len data)
      else Inr False)"
  by pat_completeness auto
termination
  by (relation "measure (\<lambda>(i, len, data). Suc len - i)") auto

declare scan_loop.simps [simp del]

text \<open>
  \<^verbatim>\<open>for (int i = 0; i < insns_size; i++) { if (data[i] != 0) { os << 1; data[i] = 0; } else { os << 0; } }\<close>
  started at \<open>i\<close>; the result is the stream and the array after the loop.
\<close>

function emit_loop :: "nat \<Rightarrow> nat \<Rightarrow> u8 list \<Rightarrow> string \<Rightarrow> error + (string \<times> u8 list)" where
  "emit_loop i n data os =
     (if i < n
      then (if i < length data
            then (if data ! i \<noteq> 0
                  then emit_loop (i + 1) n (data[i := 0]) (os @ ''1'')
                  else emit_loop (i + 1) n data (os @ ''0''))
            else Inl OutOfBounds)
      else Inr (os, data))"
  by pat_completeness auto
termination
  by (relation "measure (\<lambda>(i, n, data, os). n - i)") auto

declare emit_loop.simps [simp del]

text \<open>
  \<^verbatim>\<open>void MiniTrace::DumpCoverageData(std::ostream& os, ArtMethod* method)\<close>. The argument
  \<open>None\<close> is the null method. The result is the stream after the call and the coverage
  array of the method after the call (\<open>None\<close> where there is no array), the one object
  the function writes to. \<open>visited_check\<close> is the block under
  \<^verbatim>\<open>if (data[0] == 0)\<close>, together with the read of \<^verbatim>\<open>data[0]\<close>: \<open>Inr False\<close> is its
  \<^verbatim>\<open>return\<close>.
\<close>

definition visited_check :: "u16 \<Rightarrow> u8 list \<Rightarrow> error + bool" where
  "visited_check insns_size data =
     (if data = [] then Inl OutOfBounds
      else if data ! 0 = 0 then scan_loop 0 (unat (drop_bit 1 insns_size)) data
      else Inr True)"

definition DumpCoverageData_method ::
    "string \<Rightarrow> ArtMethod option \<Rightarrow> error + (string \<times> u8 list option)" where
  "DumpCoverageData_method os method_ptr =
     (case method_ptr of
        None \<Rightarrow> Inr (os, None)
      | Some method \<Rightarrow>
          if \<not> IsMiniTraceable method then Inr (os, GetCoverageData method)
          else if \<not> has_code_item method then Inr (os, GetCoverageData method)
          else (case GetCoverageData method of
                  None \<Rightarrow> Inr (os, None)
                | Some data \<Rightarrow>
                    let insns_size = (ucast (InsnsSizeInCodeUnits method) :: u16) in
                    if insns_size = 0 then Inr (os, Some data)
                    else
                      (case visited_check insns_size data of
                         Inl e \<Rightarrow> Inl e
                       | Inr visited \<Rightarrow>
                           if \<not> visited then Inr (os, Some data)
                           else
                             (case emit_loop 0 (unat insns_size) data
                                     (os @ line_header method insns_size) of
                                Inl e \<Rightarrow> Inl e
                              | Inr (os', data') \<Rightarrow> Inr (os' @ [NL], Some data')))))"

text \<open>
  The reference the fast path is compared with, written from the specification's words and
  not from the source: the same early returns, then a scan of the bytes the line reports
  (indices \<open>0\<close> to \<open>insns_size - 1\<close>) that skips the method when all of them are zero,
  whatever \<^verbatim>\<open>data[0]\<close> is, and the same line otherwise.
\<close>

definition reference_dump ::
    "string \<Rightarrow> ArtMethod option \<Rightarrow> error + (string \<times> u8 list option)" where
  "reference_dump os method_ptr =
     (case method_ptr of
        None \<Rightarrow> Inr (os, None)
      | Some method \<Rightarrow>
          if \<not> IsMiniTraceable method then Inr (os, GetCoverageData method)
          else if \<not> has_code_item method then Inr (os, GetCoverageData method)
          else (case GetCoverageData method of
                  None \<Rightarrow> Inr (os, None)
                | Some data \<Rightarrow>
                    let insns_size = (ucast (InsnsSizeInCodeUnits method) :: u16) in
                    if insns_size = 0 then Inr (os, Some data)
                    else if length data < unat insns_size then Inl OutOfBounds
                    else if list_all (\<lambda>b. b = 0) (take (unat insns_size) data)
                    then Inr (os, Some data)
                    else
                      (case emit_loop 0 (unat insns_size) data
                              (os @ line_header method insns_size) of
                         Inl e \<Rightarrow> Inl e
                       | Inr (os', data') \<Rightarrow> Inr (os' @ [NL], Some data'))))"

text \<open>The character the emit loop writes for a byte.\<close>

definition bit_char :: "u8 \<Rightarrow> char" where
  "bit_char b = (if b \<noteq> 0 then CHR ''1'' else CHR ''0'')"

text \<open>
  Whether the dump of a method returns with a line written: every line ends with a newline,
  so a line was written exactly when the stream has changed.
\<close>

definition line_emitted :: "string \<Rightarrow> ArtMethod \<Rightarrow> bool" where
  "line_emitted os m =
     (case DumpCoverageData_method os (Some m) of
        Inl e \<Rightarrow> False
      | Inr (os', cov') \<Rightarrow> os' \<noteq> os)"

section \<open>Classes and the runtime\<close>

text \<open>
  What the file asks of a \<^verbatim>\<open>mirror::Class\<close>: the four kind predicates, the location of
  its dex file, the MiniTraceable flag and the declared methods; and whether
  \<^verbatim>\<open>InstallStubsForClass\<close> has been called on it.
\<close>

record mirror_Class =
  IsArrayClass :: bool
  IsInterface :: bool
  IsPrimitive :: bool
  IsProxyClass :: bool
  dex_location :: string
  klass_IsMiniTraceable :: bool
  stubs_installed :: bool
  GetDeclaredMethods :: "ArtMethod list"

definition SetIsMiniTraceable :: "mirror_Class \<Rightarrow> mirror_Class" where
  "SetIsMiniTraceable klass = klass\<lparr>klass_IsMiniTraceable := True\<rparr>"

text \<open>
  Modelled from the spec: \<^verbatim>\<open>Instrumentation::InstallStubsForClass\<close> is not among the
  sources. The specification calls it "install per-method instrumentation stubs for that
  class"; here it sets the flag \<open>stubs_installed\<close> of the class, which nothing else sets.
\<close>

definition InstallStubsForClass :: "mirror_Class \<Rightarrow> mirror_Class" where
  "InstallStubsForClass klass = klass\<lparr>stubs_installed := True\<rparr>"

text \<open>The \<^verbatim>\<open>MiniTrace\<close> object: its constructor is empty and it has no field.\<close>

datatype MiniTrace = MiniTrace

datatype severity = INFO | ERROR

text \<open>
  A file: its contents, and whether it opens for reading and for writing.
\<close>

record File =
  contents :: string
  can_read :: bool
  can_write :: bool

text \<open>
  The process state that \<^verbatim>\<open>mini_trace.cc\<close> reads and writes: \<^verbatim>\<open>the_trace_\<close>; the
  instrumentation's listeners and its method-tracing mode; the class linker's classes in the
  order \<^verbatim>\<open>VisitClasses\<close> visits them; the files, and whether the next creation, write and
  flush of a file succeed; \<^verbatim>\<open>getuid()\<close>, \<^verbatim>\<open>getpid()\<close> and \<^verbatim>\<open>MilliTime()\<close>; and the log.
  Locks, the GC critical section and the suspension of the other threads have no effect on
  one thread's run and are left out.
\<close>

record Runtime =
  the_trace :: "MiniTrace option"
  listeners :: "MiniTrace list"
  method_tracing :: bool
  classes :: "mirror_Class list"
  fs :: "string \<Rightarrow> File option"
  create_ok :: bool
  write_ok :: bool
  flush_ok :: bool
  uid :: u32
  pid :: u32
  millis :: "64 word"
  log :: "(severity \<times> string) list"

definition LOG :: "severity \<Rightarrow> string \<Rightarrow> Runtime \<Rightarrow> Runtime" where
  "LOG sev msg s = s\<lparr>log := log s @ [(sev, msg)]\<rparr>"

text \<open>\<^verbatim>\<open>%d\<close> and \<^verbatim>\<open>operator<<\<close> of a signed \<^verbatim>\<open>int\<close>.\<close>

definition show_int :: "int \<Rightarrow> string" where
  "show_int i = (if i < 0 then ''-'' @ show_dec (nat (- i)) else show_dec (nat i))"

definition IsMiniTraceActive :: "Runtime \<Rightarrow> bool" where
  "IsMiniTraceActive s = (the_trace s \<noteq> None)"

text \<open>
  Modelled from the spec: \<^verbatim>\<open>Instrumentation::AddListener\<close>, \<^verbatim>\<open>RemoveListener\<close>,
  \<^verbatim>\<open>EnableMethodTracing\<close> and \<^verbatim>\<open>DisableMethodTracing\<close> are not among the sources. The
  specification has them "register/deregister as execution-event listener" and
  "enable/disable method-tracing mode".
\<close>

definition AddListener :: "MiniTrace \<Rightarrow> Runtime \<Rightarrow> Runtime" where
  "AddListener t s = s\<lparr>listeners := listeners s @ [t]\<rparr>"

definition RemoveListener :: "MiniTrace \<Rightarrow> Runtime \<Rightarrow> Runtime" where
  "RemoveListener t s = s\<lparr>listeners := remove1 t (listeners s)\<rparr>"

definition EnableMethodTracing :: "Runtime \<Rightarrow> Runtime" where
  "EnableMethodTracing s = s\<lparr>method_tracing := True\<rparr>"

definition DisableMethodTracing :: "Runtime \<Rightarrow> Runtime" where
  "DisableMethodTracing s = s\<lparr>method_tracing := False\<rparr>"

text \<open>
  Modelled from the spec: the file abstraction (\<^verbatim>\<open>OS::FileExists\<close>,
  \<^verbatim>\<open>OS::OpenFileWithFlags\<close>, \<^verbatim>\<open>OS::CreateEmptyFile\<close>, \<^verbatim>\<open>File::WriteFully\<close>,
  \<^verbatim>\<open>File::Erase\<close>, \<^verbatim>\<open>File::FlushCloseOrErase\<close>) is not among the sources. The
  specification has "file-exists/open/create/write-fully/flush-close-or-erase": an existing
  file is opened "for read/write in append mode", a missing one is created empty, a write
  that does not complete leaves the file "truncated/erased", and a failed flush retracts no
  byte. Whether an opening succeeds is a property of the file; whether a creation, a write
  and a flush succeed is given by the state (\<open>create_ok\<close>, \<open>write_ok\<close>, \<open>flush_ok\<close>).
  \<open>ifstream_opens\<close> is \<^verbatim>\<open>std::ifstream in(name)\<close> followed by the test \<^verbatim>\<open>!in\<close>.
\<close>

definition FileExists :: "Runtime \<Rightarrow> string \<Rightarrow> bool" where
  "FileExists s name = (fs s name \<noteq> None)"

definition ifstream_opens :: "Runtime \<Rightarrow> string \<Rightarrow> bool" where
  "ifstream_opens s name = (case fs s name of None \<Rightarrow> False | Some f \<Rightarrow> can_read f)"

definition OpenFileWithFlags_RDWR_APPEND :: "Runtime \<Rightarrow> string \<Rightarrow> bool" where
  "OpenFileWithFlags_RDWR_APPEND s name =
     (case fs s name of None \<Rightarrow> False | Some f \<Rightarrow> can_read f \<and> can_write f)"

definition CreateEmptyFile :: "Runtime \<Rightarrow> string \<Rightarrow> Runtime option" where
  "CreateEmptyFile s name =
     (if create_ok s
      then Some (s\<lparr>fs := (fs s)(name \<mapsto> \<lparr>contents = [], can_read = True, can_write = True\<rparr>)\<rparr>)
      else None)"

text \<open>
  The open-or-create step of \<^verbatim>\<open>DumpCoverageData(bool)\<close>: \<open>None\<close> is the null
  \<^verbatim>\<open>file\<close>; otherwise the state after the step.
\<close>

definition open_or_create :: "Runtime \<Rightarrow> string \<Rightarrow> Runtime option" where
  "open_or_create s name =
     (if FileExists s name
      then (if OpenFileWithFlags_RDWR_APPEND s name then Some s else None)
      else CreateEmptyFile s name)"

definition WriteFully_append :: "string \<Rightarrow> string \<Rightarrow> Runtime \<Rightarrow> Runtime" where
  "WriteFully_append name text s =
     (case fs s name of
        None \<Rightarrow> s
      | Some f \<Rightarrow> s\<lparr>fs := (fs s)(name \<mapsto> f\<lparr>contents := contents f @ text\<rparr>)\<rparr>)"

definition Erase :: "string \<Rightarrow> Runtime \<Rightarrow> Runtime" where
  "Erase name s =
     (case fs s name of
        None \<Rightarrow> s
      | Some f \<Rightarrow> s\<lparr>fs := (fs s)(name \<mapsto> f\<lparr>contents := []\<rparr>)\<rparr>)"

section \<open>The class filter\<close>

definition system_framework_prefix :: string where
  "system_framework_prefix = ''/system/framework/''"

text \<open>
  \<^verbatim>\<open>strncmp(location, prefix, strlen(prefix)) == 0\<close>: the first \<^verbatim>\<open>strlen(prefix)\<close>
  characters of the location are the prefix (a shorter location differs from it at its
  terminator).
\<close>

definition has_system_prefix :: "string \<Rightarrow> bool" where
  "has_system_prefix location =
     (take (length system_framework_prefix) location = system_framework_prefix)"

text \<open>
  \<^verbatim>\<open>void MiniTrace::PostClassPrepare(mirror::Class* klass)\<close>: the class after the call, in
  the state \<open>s\<close> in which \<^verbatim>\<open>IsMiniTraceActive()\<close> is read.
\<close>

definition PostClassPrepare :: "Runtime \<Rightarrow> mirror_Class \<Rightarrow> mirror_Class" where
  "PostClassPrepare s klass =
     (if IsArrayClass klass \<or> IsInterface klass \<or> IsPrimitive klass \<or> IsProxyClass klass
      then klass
      else if has_system_prefix (dex_location klass) then klass
      else let klass' = SetIsMiniTraceable klass
           in if IsMiniTraceActive s then InstallStubsForClass klass' else klass')"

section \<open>The dump\<close>

text \<open>
  \<^verbatim>\<open>for (ArtMethod& method : klass->GetDeclaredMethods(pointer_size)) DumpCoverageData(os, &method)\<close>
\<close>

fun dump_methods :: "string \<Rightarrow> ArtMethod list \<Rightarrow> error + (string \<times> ArtMethod list)" where
  "dump_methods os [] = Inr (os, [])"
| "dump_methods os (method # methods) =
     (case DumpCoverageData_method os (Some method) of
        Inl e \<Rightarrow> Inl e
      | Inr (os', data') \<Rightarrow>
          (case dump_methods os' methods of
             Inl e \<Rightarrow> Inl e
           | Inr (os'', methods') \<Rightarrow>
               Inr (os'', method\<lparr>GetCoverageData := data'\<rparr> # methods')))"

text \<open>\<^verbatim>\<open>DumpCoverageDataClassVisitor::operator()\<close>\<close>

definition DumpCoverageDataClassVisitor ::
    "string \<Rightarrow> mirror_Class \<Rightarrow> error + (string \<times> mirror_Class)" where
  "DumpCoverageDataClassVisitor os klass =
     (if \<not> klass_IsMiniTraceable klass then Inr (os, klass)
      else (case dump_methods os (GetDeclaredMethods klass) of
              Inl e \<Rightarrow> Inl e
            | Inr (os', methods') \<Rightarrow> Inr (os', klass\<lparr>GetDeclaredMethods := methods'\<rparr>)))"

text \<open>\<^verbatim>\<open>VisitClasses(&visitor)\<close> with the dump visitor, which never stops the walk.\<close>

fun VisitClasses_dump ::
    "string \<Rightarrow> mirror_Class list \<Rightarrow> error + (string \<times> mirror_Class list)" where
  "VisitClasses_dump os [] = Inr (os, [])"
| "VisitClasses_dump os (klass # rest) =
     (case DumpCoverageDataClassVisitor os klass of
        Inl e \<Rightarrow> Inl e
      | Inr (os', klass') \<Rightarrow>
          (case VisitClasses_dump os' rest of
             Inl e \<Rightarrow> Inl e
           | Inr (os'', rest') \<Rightarrow> Inr (os'', klass' # rest')))"

definition coverage_data_filename :: "Runtime \<Rightarrow> string" where
  "coverage_data_filename s = ''/data/mini_trace_'' @ show_int (sint (uid s)) @ ''_coverage.dat''"

definition envelope :: "string \<Rightarrow> Runtime \<Rightarrow> string" where
  "envelope kind s =
     kind @ [TAB] @ show_int (sint (pid s)) @ [TAB] @ show_dec (unat (millis s)) @ [NL]"

text \<open>The end of \<^verbatim>\<open>DumpCoverageData(bool)\<close>, from \<^verbatim>\<open>std::string data(os.str())\<close> on.\<close>

definition write_out :: "string \<Rightarrow> string \<Rightarrow> Runtime \<Rightarrow> Runtime" where
  "write_out name text s =
     (if \<not> write_ok s
      then Erase name (LOG INFO (''Failed to write coverage data file '' @ name) s)
      else let s' = WriteFully_append name text s
           in if \<not> flush_ok s'
              then LOG INFO (''Failed to flush coverage data file '' @ name) s'
              else s')"

text \<open>\<^verbatim>\<open>void MiniTrace::DumpCoverageData(bool start)\<close>\<close>

definition DumpCoverageData :: "bool \<Rightarrow> Runtime \<Rightarrow> error + Runtime" where
  "DumpCoverageData start s =
     (if \<not> IsMiniTraceActive s then Inr s
      else
        let name = coverage_data_filename s in
        (case open_or_create s name of
           None \<Rightarrow> Inr (LOG INFO (''Failed to open coverage data file '' @ name) s)
         | Some s1 \<Rightarrow>
             if start
             then Inr (write_out name (envelope ''Start'' s1)
                         (LOG INFO ''MiniTrace: Try to start coverage data'' s1))
             else
               let s2 = LOG INFO ''MiniTrace: Try to dump coverage data'' s1 in
               (case VisitClasses_dump (envelope ''Dump'' s2) (classes s2) of
                  Inl e \<Rightarrow> Inl e
                | Inr (os, classes') \<Rightarrow> Inr (write_out name os (s2\<lparr>classes := classes'\<rparr>)))))"

section \<open>Start, Stop and Shutdown\<close>

definition trace_config_filename :: "Runtime \<Rightarrow> string" where
  "trace_config_filename s = ''/data/mini_trace_'' @ show_dec (unat (uid s)) @ ''_config.in''"

text \<open>
  The block of \<^verbatim>\<open>Start\<close> under "Create Trace object": the second test of \<^verbatim>\<open>the_trace_\<close>,
  the new \<^verbatim>\<open>MiniTrace\<close>, \<^verbatim>\<open>AddListener\<close>, \<^verbatim>\<open>EnableMethodTracing\<close> and the walk of the
  classes with \<^verbatim>\<open>PostClassPrepareClassVisitor\<close>.
\<close>

definition create_trace :: "Runtime \<Rightarrow> Runtime" where
  "create_trace s =
     (if the_trace s \<noteq> None
      then LOG ERROR ''Trace already in progress, ignoring this request'' s
      else let s1 = s\<lparr>the_trace := Some MiniTrace\<rparr>;
               s2 = AddListener MiniTrace s1;
               s3 = EnableMethodTracing s2
           in s3\<lparr>classes := map (PostClassPrepare s3) (classes s3)\<rparr>)"

text \<open>\<^verbatim>\<open>void MiniTrace::Start()\<close>\<close>

definition Start :: "Runtime \<Rightarrow> error + Runtime" where
  "Start s =
     (let s0 = LOG INFO ''MiniTrace: Try to start'' s in
      if the_trace s0 \<noteq> None
      then Inr (LOG ERROR ''Trace already in progress, ignoring this request'' s0)
      else
        let name = trace_config_filename s0 in
        if FileExists s0 name
        then (if \<not> ifstream_opens s0 name
              then Inr (LOG INFO (''MiniTrace: config file '' @ name @
                                  '' exists but can't be opened'') s0)
              else DumpCoverageData True (create_trace s0))
        else Inr (LOG INFO (''MiniTrace: config file '' @ name @ '' does not exist'') s0))"

text \<open>\<^verbatim>\<open>void MiniTrace::Stop()\<close>\<close>

definition Stop :: "Runtime \<Rightarrow> error + Runtime" where
  "Stop s =
     (let (local_trace, s1) =
            (if the_trace s = None
             then (None, LOG ERROR ''Trace stop requested, but no trace currently running'' s)
             else (the_trace s, s\<lparr>the_trace := None\<rparr>));
          s2 = (case local_trace of
                  None \<Rightarrow> s1
                | Some t \<Rightarrow> RemoveListener t (DisableMethodTracing s1))
      in DumpCoverageData False s2)"

text \<open>\<^verbatim>\<open>void MiniTrace::Shutdown()\<close>\<close>

definition Shutdown :: "Runtime \<Rightarrow> error + Runtime" where
  "Shutdown s = (if IsMiniTraceActive s then Stop s else Inr s)"

section \<open>Runs\<close>

text \<open>
  What a thread can ask of the tracer, one request after the other: the three lifecycle
  calls, the public \<^verbatim>\<open>DumpCoverageData(bool)\<close>, the class-load callback
  \<^verbatim>\<open>ClassPrepare\<close> on a class the class linker then holds, and \<^verbatim>\<open>PostClassPrepare\<close> again
  on the class at a position of the class linker's table.
\<close>

datatype request =
    ReqStart
  | ReqStop
  | ReqShutdown
  | ReqDump bool
  | ReqClassPrepare mirror_Class
  | ReqPostClassPrepare nat

fun step :: "request \<Rightarrow> Runtime \<Rightarrow> error + Runtime" where
  "step ReqStart s = Start s"
| "step ReqStop s = Stop s"
| "step ReqShutdown s = Shutdown s"
| "step (ReqDump start) s = DumpCoverageData start s"
| "step (ReqClassPrepare klass) s = Inr (s\<lparr>classes := classes s @ [PostClassPrepare s klass]\<rparr>)"
| "step (ReqPostClassPrepare i) s =
     Inr (if i < length (classes s)
          then s\<lparr>classes := (classes s)[i := PostClassPrepare s (classes s ! i)]\<rparr>
          else s)"

fun run :: "request list \<Rightarrow> Runtime \<Rightarrow> error + Runtime" where
  "run [] s = Inr s"
| "run (r # rs) s = (case step r s of Inl e \<Rightarrow> Inl e | Inr s' \<Rightarrow> run rs s')"

text \<open>The filter's verdict on a class, and what it promises of a class it excludes.\<close>

definition eligible :: "mirror_Class \<Rightarrow> bool" where
  "eligible klass =
     (\<not> IsArrayClass klass \<and> \<not> IsInterface klass \<and> \<not> IsPrimitive klass \<and>
      \<not> IsProxyClass klass \<and> \<not> has_system_prefix (dex_location klass))"

definition untouched :: "mirror_Class \<Rightarrow> bool" where
  "untouched klass = (\<not> klass_IsMiniTraceable klass \<and> \<not> stubs_installed klass)"

text \<open>
  A class without its methods: its kind, its location and its two flags, the part of a
  class no dump changes.
\<close>

definition kind_and_flags :: "mirror_Class \<Rightarrow> mirror_Class" where
  "kind_and_flags klass = klass\<lparr>GetDeclaredMethods := []\<rparr>"

text \<open>
  Two properties of a class table: every class the filter excludes is untouched; and, while
  a session exists, every class the filter admits is marked and has its stubs.
\<close>

definition excluded_untouched :: "mirror_Class list \<Rightarrow> bool" where
  "excluded_untouched cs = list_all (\<lambda>c. eligible c \<or> untouched c) cs"

definition active_instrumented :: "Runtime \<Rightarrow> bool" where
  "active_instrumented s =
     (\<not> IsMiniTraceActive s \<or>
      list_all (\<lambda>c. \<not> eligible c \<or> (klass_IsMiniTraceable c \<and> stubs_installed c)) (classes s))"

section \<open>Example inputs\<close>

text \<open>A traceable method with a code item, of \<open>n\<close> code units and coverage array \<open>data\<close>.\<close>

definition example_method :: "u32 \<Rightarrow> u8 list \<Rightarrow> ArtMethod" where
  "example_method n data =
     \<lparr>method_addr = 4096, IsMiniTraceable = True, has_code_item = True,
      GetCoverageData = Some data, InsnsSizeInCodeUnits = n,
      pretty_descriptor = ''com.example.Main'', GetName = ''run'', GetSignature = ''()V'',
      GetDeclaringClassSourceFile = ''Main.java''\<rparr>"

text \<open>
  A process with a session: one marked class with one method of four code units whose byte
  \<open>2\<close> is set, and an empty, writable coverage file.
\<close>

definition example_class :: mirror_Class where
  "example_class =
     \<lparr>IsArrayClass = False, IsInterface = False, IsPrimitive = False, IsProxyClass = False,
      dex_location = ''/data/app/com.example/base.apk'', klass_IsMiniTraceable = True,
      stubs_installed = True,
      GetDeclaredMethods = [example_method 4 [0, 0, 7, 0, 0, 0, 0, 0, 0, 0, 0, 0]]\<rparr>"

definition example_runtime :: Runtime where
  "example_runtime =
     \<lparr>the_trace = Some MiniTrace, listeners = [MiniTrace], method_tracing = True,
      classes = [example_class],
      fs = [''/data/mini_trace_10001_coverage.dat'' \<mapsto>
              \<lparr>contents = [], can_read = True, can_write = True\<rparr>],
      create_ok = True, write_ok = True, flush_ok = True,
      uid = 10001, pid = 4242, millis = 1000, log = []\<rparr>"

text \<open>
  A process without a session whose trigger file exists: a framework class, an interface
  and an application class, none of them marked.
\<close>

definition example_klass :: "string \<Rightarrow> bool \<Rightarrow> mirror_Class" where
  "example_klass location interface =
     \<lparr>IsArrayClass = False, IsInterface = interface, IsPrimitive = False, IsProxyClass = False,
      dex_location = location, klass_IsMiniTraceable = False, stubs_installed = False,
      GetDeclaredMethods = []\<rparr>"

definition example_idle :: Runtime where
  "example_idle =
     \<lparr>the_trace = None, listeners = [], method_tracing = False,
      classes = [example_klass ''/system/framework/framework.jar'' False,
                 example_klass ''/data/app/com.example/base.apk'' True,
                 example_klass ''/data/app/com.example/base.apk'' False],
      fs = [''/data/mini_trace_10001_config.in'' \<mapsto>
              \<lparr>contents = [], can_read = True, can_write = False\<rparr>],
      create_ok = True, write_ok = True, flush_ok = True,
      uid = 10001, pid = 4242, millis = 1000, log = []\<rparr>"

section \<open>Reading a word of the coverage array\<close>

lemma push_ucast_zero:
  fixes x :: u8
  assumes "k \<le> 24"
  shows "(push_bit k (ucast x :: u32) = 0) \<longleftrightarrow> x = 0"
proof
  assume z: "push_bit k (ucast x :: u32) = 0"
  show "x = 0"
  proof (rule bit_word_eqI)
    fix n assume n: "n < LENGTH(8)"
    have "bit (push_bit k (ucast x :: u32)) (n + k) = bit x n"
      using n assms by (simp add: bit_push_bit_iff bit_ucast_iff)
    with z show "bit x n = bit (0::u8) n" by simp
  qed
next
  assume "x = 0" then show "push_bit k (ucast x :: u32) = 0" by simp
qed

lemma u32_of_bytes_zero:
  fixes a b c d :: u8
  shows "((ucast a :: u32) OR push_bit 8 (ucast b) OR push_bit 16 (ucast c) OR push_bit 24 (ucast d) = 0)
         \<longleftrightarrow> (a = 0 \<and> b = 0 \<and> c = 0 \<and> d = 0)"
  using push_ucast_zero [of 0 a] push_ucast_zero [of 8 b] push_ucast_zero [of 16 c]
    push_ucast_zero [of 24 d]
  by (simp add: or_eq_0_iff)

lemma read_u32_zero:
  "read_u32 data i = Some w \<Longrightarrow>
     (w = 0) \<longleftrightarrow> (data ! (4 * i) = 0 \<and> data ! (4 * i + 1) = 0 \<and> data ! (4 * i + 2) = 0 \<and> data ! (4 * i + 3) = 0)"
  using u32_of_bytes_zero by (auto simp: read_u32_def split: if_splits)

lemma four_cases: "4 * i \<le> j \<Longrightarrow> j < 4 * i + 4 \<Longrightarrow> j = 4 * i \<or> j = 4 * i + 1 \<or> j = 4 * i + 2 \<or> j = 4 * (i::nat) + 3"
  by arith

lemma read_u32_zero_all:
  "read_u32 data i = Some w \<Longrightarrow> (w = 0) \<longleftrightarrow> (\<forall>j. 4 * i \<le> j \<and> j < 4 * i + 4 \<longrightarrow> data ! j = 0)"
  apply (simp add: read_u32_zero)
  apply (rule iffI)
   apply clarify
  subgoal for j using four_cases [of i j] by auto
  apply simp
  done

lemma read_u32_Some: "(\<exists>w. read_u32 data i = Some w) \<longleftrightarrow> 4 * i + 4 \<le> length data"
  by (auto simp: read_u32_def)

section \<open>The two loops\<close>

lemma scan_loop_result:
  "scan_loop i len data = Inr v \<Longrightarrow>
     v = (\<exists>j. 4 * i \<le> j \<and> j < 4 * (len + 1) \<and> j < length data \<and> data ! j \<noteq> 0)"
proof (induction i len data arbitrary: v rule: scan_loop.induct)
  case (1 i len data)
  show ?case
  proof (cases "i \<le> len")
    case False
    with "1.prems" have "v = False" by (simp add: scan_loop.simps)
    moreover from False have "\<not> (\<exists>j. 4 * i \<le> j \<and> j < 4 * (len + 1))" by arith
    ultimately show ?thesis by blast
  next
    case True
    with "1.prems" obtain w where w: "read_u32 data i = Some w"
      by (auto simp: scan_loop.simps split: option.splits)
    then have len: "4 * i + 4 \<le> length data" using read_u32_Some by blast
    show ?thesis
    proof (cases "w = 0")
      case False
      with True w "1.prems" have "v = True" by (simp add: scan_loop.simps)
      moreover from False w obtain j where "4 * i \<le> j" "j < 4 * i + 4" "data ! j \<noteq> 0"
        using read_u32_zero_all by blast
      moreover with True len have "j < 4 * (len + 1)" "j < length data" by arith+
      ultimately show ?thesis by blast
    next
      case z: True
      with True w "1.prems" have "scan_loop (i + 1) len data = Inr v"
        by (simp add: scan_loop.simps)
      with "1.IH" True w z
      have v: "v = (\<exists>j. 4 * (i + 1) \<le> j \<and> j < 4 * (len + 1) \<and> j < length data \<and> data ! j \<noteq> 0)"
        by simp
      from z w have zero: "\<And>j. 4 * i \<le> j \<Longrightarrow> j < 4 * i + 4 \<Longrightarrow> data ! j = 0"
        using read_u32_zero_all by blast
      show ?thesis
        unfolding v
      proof
        assume "\<exists>j. 4 * (i + 1) \<le> j \<and> j < 4 * (len + 1) \<and> j < length data \<and> data ! j \<noteq> 0"
        then obtain j where "4 * (i + 1) \<le> j" "j < 4 * (len + 1)" "j < length data" "data ! j \<noteq> 0"
          by blast
        moreover then have "4 * i \<le> j" by arith
        ultimately show "\<exists>j. 4 * i \<le> j \<and> j < 4 * (len + 1) \<and> j < length data \<and> data ! j \<noteq> 0"
          by blast
      next
        assume "\<exists>j. 4 * i \<le> j \<and> j < 4 * (len + 1) \<and> j < length data \<and> data ! j \<noteq> 0"
        then obtain j where j: "4 * i \<le> j" "j < 4 * (len + 1)" "j < length data" "data ! j \<noteq> 0"
          by blast
        with zero have "\<not> j < 4 * i + 4" by blast
        then have "4 * (i + 1) \<le> j" by arith
        with j show "\<exists>j. 4 * (i + 1) \<le> j \<and> j < 4 * (len + 1) \<and> j < length data \<and> data ! j \<noteq> 0"
          by blast
      qed
    qed
  qed
qed

lemma scan_loop_returns:
  "4 * (len + 1) \<le> length data \<Longrightarrow> \<exists>v. scan_loop i len data = Inr v"
proof (induction i len data rule: scan_loop.induct)
  case (1 i len data)
  show ?case
  proof (cases "i \<le> len")
    case False
    then show ?thesis by (auto simp: scan_loop.simps)
  next
    case True
    with "1.prems" have "4 * i + 4 \<le> length data" by arith
    then obtain w where w: "read_u32 data i = Some w" using read_u32_Some by blast
    show ?thesis
    proof (cases "w = 0")
      case False
      with True w show ?thesis by (auto simp: scan_loop.simps)
    next
      case z: True
      with "1.IH" True w "1.prems" obtain v where "scan_loop (i + 1) len data = Inr v"
        by auto
      with True w z show ?thesis by (auto simp: scan_loop.simps)
    qed
  qed
qed

lemma scan_loop_False_bounds:
  "scan_loop i len data = Inr False \<Longrightarrow> i \<le> len \<Longrightarrow> 4 * (len + 1) \<le> length data"
proof (induction i len data rule: scan_loop.induct)
  case (1 i len data)
  from "1.prems" obtain w where w: "read_u32 data i = Some w"
    by (auto simp: scan_loop.simps split: option.splits)
  then have len: "4 * i + 4 \<le> length data" using read_u32_Some by blast
  from "1.prems" w have z: "w = 0" and rec: "scan_loop (i + 1) len data = Inr False"
    by (auto simp: scan_loop.simps split: if_splits)
  show ?case
  proof (cases "i + 1 \<le> len")
    case True
    with "1.IH" "1.prems" w z rec show ?thesis by simp
  next
    case False
    with "1.prems" have "i = len" by arith
    with len show ?thesis by simp
  qed
qed

lemma emit_loop_in_bounds:
  "i \<le> n \<Longrightarrow> n \<le> length data \<Longrightarrow>
   emit_loop i n data os =
     Inr (os @ map bit_char (drop i (take n data)),
          take i data @ replicate (n - i) 0 @ drop n data)"
proof (induction i n data os rule: emit_loop.induct)
  case (1 i n data os)
  show ?case
  proof (cases "i < n")
    case False
    with "1.prems" have "i = n" by arith
    with "1.prems" show ?thesis by (simp add: emit_loop.simps)
  next
    case True
    with "1.prems" have il: "i < length data" by arith
    have dr: "drop i (take n data) = data ! i # drop (Suc i) (take n data)"
      using True il Cons_nth_drop_Suc [of i "take n data"] by simp
    have rp: "replicate (n - i) (0::u8) = 0 # replicate (n - Suc i) 0"
      using True by (cases "n - i") auto
    show ?thesis
    proof (cases "data ! i = 0")
      case z: True
      have tk: "take (Suc i) data = take i data @ [0]"
        using il z by (simp add: take_Suc_conv_app_nth)
      from "1.IH"(2) True il z "1.prems"
      have "emit_loop (i + 1) n data (os @ ''0'') =
         Inr ((os @ ''0'') @ map bit_char (drop (i + 1) (take n data)),
              take (i + 1) data @ replicate (n - (i + 1)) 0 @ drop n data)"
        by simp
      with True il z show ?thesis
        by (subst emit_loop.simps) (simp add: dr rp tk bit_char_def)
    next
      case nz: False
      have tk: "take (Suc i) (data[i := 0]) = take i data @ [0]"
        using il by (simp add: take_Suc_conv_app_nth)
      have dr2: "drop (Suc i) (take n (data[i := 0])) = drop (Suc i) (take n data)"
        by (simp add: drop_take)
      have dn: "drop n (data[i := 0]) = drop n data"
        using True by simp
      from "1.IH"(1) True il nz "1.prems"
      have "emit_loop (i + 1) n (data[i := 0]) (os @ ''1'') =
         Inr ((os @ ''1'') @ map bit_char (drop (i + 1) (take n (data[i := 0]))),
              take (i + 1) (data[i := 0]) @ replicate (n - (i + 1)) 0 @ drop n (data[i := 0]))"
        by simp
      with True il nz show ?thesis
        by (subst emit_loop.simps) (simp add: dr rp tk dr2 dn bit_char_def)
    qed
  qed
qed

lemma emit_loop_Inr_bounds:
  "emit_loop i n data os = Inr r \<Longrightarrow> i < n \<Longrightarrow> n \<le> length data"
proof (induction i n data os rule: emit_loop.induct)
  case (1 i n data os)
  from "1.prems" have il: "i < length data"
    by (subst (asm) emit_loop.simps) (auto split: if_splits)
  show ?case
  proof (cases "i + 1 < n")
    case False
    with "1.prems" il show ?thesis by arith
  next
    case True
    show ?thesis
    proof (cases "data ! i = 0")
      case z: True
      with "1.prems" il have "emit_loop (i + 1) n data (os @ ''0'') = Inr r"
        by (subst (asm) emit_loop.simps) simp
      with "1.IH"(2) "1.prems" il z True show ?thesis by simp
    next
      case nz: False
      with "1.prems" il have "emit_loop (i + 1) n (data[i := 0]) (os @ ''1'') = Inr r"
        by (subst (asm) emit_loop.simps) simp
      with "1.IH"(1) "1.prems" il nz True show ?thesis by simp
    qed
  qed
qed

section \<open>The dump of one method\<close>

lemma unat_half: "unat (drop_bit 1 (n::u16)) = unat n div 2"
  unfolding unat_drop_bit_eq by (simp add: drop_bit_eq_div)

lemma half_bound: "unat (n::u16) \<le> 4 * (unat (drop_bit 1 n) + 1)"
  unfolding unat_half by arith

lemma visited_check_result:
  "visited_check n data = Inr v \<Longrightarrow>
     v = (\<exists>j. j < 4 * (unat (drop_bit 1 n) + 1) \<and> j < length data \<and> data ! j \<noteq> 0)"
proof -
  assume a: "visited_check n data = Inr v"
  then have ne: "data \<noteq> []" by (auto simp: visited_check_def split: if_splits)
  show ?thesis
  proof (cases "data ! 0 = 0")
    case True
    with a ne have "scan_loop 0 (unat (drop_bit 1 n)) data = Inr v"
      by (simp add: visited_check_def)
    from scan_loop_result [OF this] show ?thesis by simp
  next
    case False
    with a ne have "v" by (simp add: visited_check_def)
    moreover from False ne have "0 < 4 * (unat (drop_bit 1 n) + 1) \<and> 0 < length data \<and> data ! 0 \<noteq> 0"
      by simp
    ultimately show ?thesis by blast
  qed
qed

lemma visited_check_returns:
  "4 * (unat (drop_bit 1 n) + 1) \<le> length data \<Longrightarrow> \<exists>v. visited_check n data = Inr v"
  using scan_loop_returns [of "unat (drop_bit 1 n)" data 0]
  by (auto simp: visited_check_def)

lemma visited_check_False_bounds:
  "visited_check n data = Inr False \<Longrightarrow> 4 * (unat (drop_bit 1 n) + 1) \<le> length data"
  using scan_loop_False_bounds [of 0 "unat (drop_bit 1 n)" data]
  by (auto simp: visited_check_def split: if_splits)

text \<open>The one equation for the dump of a method that passes the early returns.\<close>

lemma dump_method_unfold:
  assumes "IsMiniTraceable m" "has_code_item m" "GetCoverageData m = Some data"
    and "ucast (InsnsSizeInCodeUnits m) = n" "n \<noteq> 0"
  shows "DumpCoverageData_method os (Some m) =
     (case visited_check n data of
        Inl e \<Rightarrow> Inl e
      | Inr visited \<Rightarrow>
          if \<not> visited then Inr (os, Some data)
          else (case emit_loop 0 (unat n) data (os @ line_header m n) of
                  Inl e \<Rightarrow> Inl e
                | Inr (os', data') \<Rightarrow> Inr (os' @ [NL], Some data')))"
  using assms by (simp add: DumpCoverageData_method_def)

lemma dump_method_line:
  assumes "IsMiniTraceable m" "has_code_item m" "GetCoverageData m = Some data"
    and "ucast (InsnsSizeInCodeUnits m) = n" "n \<noteq> 0"
    and "visited_check n data = Inr True" "unat n \<le> length data"
  shows "DumpCoverageData_method os (Some m) =
     Inr (os @ line_header m n @ map bit_char (take (unat n) data) @ [NL],
          Some (replicate (unat n) 0 @ drop (unat n) data))"
  using assms emit_loop_in_bounds [of 0 "unat n" data "os @ line_header m n"]
  by (simp add: dump_method_unfold)

lemma dump_method_skip:
  assumes "IsMiniTraceable m" "has_code_item m" "GetCoverageData m = Some data"
    and "ucast (InsnsSizeInCodeUnits m) = n" "n \<noteq> 0"
    and "visited_check n data = Inr False"
  shows "DumpCoverageData_method os (Some m) = Inr (os, Some data)"
  using assms by (simp add: dump_method_unfold)

lemma line_header_cov [simp]:
  "line_header (m\<lparr>GetCoverageData := c\<rparr>) n = line_header m n"
  by (simp add: line_header_def)

lemma map_bit_char_zeros [simp]: "map bit_char (replicate k 0) = replicate k (CHR ''0'')"
  by (simp add: bit_char_def)

lemma take_all_zero:
  "k \<le> length data \<Longrightarrow> (\<forall>i<k. data ! i = 0) \<Longrightarrow> take k data = replicate k (0::u8)"
  by (simp add: list_eq_iff_nth_eq)

text \<open>What a dump that returns has done, in terms of the verdict of the skip block.\<close>

lemma dump_method_cases:
  assumes "IsMiniTraceable m" "has_code_item m" "GetCoverageData m = Some data"
    and "ucast (InsnsSizeInCodeUnits m) = n" "n \<noteq> 0"
    and "DumpCoverageData_method os (Some m) = Inr (os', cov')"
  shows "(visited_check n data = Inr False \<and> os' = os \<and> cov' = Some data) \<or>
         (visited_check n data = Inr True \<and> unat n \<le> length data \<and>
          os' = os @ line_header m n @ map bit_char (take (unat n) data) @ [NL] \<and>
          cov' = Some (replicate (unat n) 0 @ drop (unat n) data))"
proof -
  from assms(6) obtain v where v: "visited_check n data = Inr v"
    by (auto simp: dump_method_unfold [OF assms(1-5)] split: sum.splits)
  show ?thesis
  proof (cases v)
    case False
    with v assms(6) dump_method_skip [OF assms(1-5), of os] show ?thesis by simp
  next
    case True
    with v have vt: "visited_check n data = Inr True" by simp
    with assms(6) obtain r where "emit_loop 0 (unat n) data (os @ line_header m n) = Inr r"
      by (auto simp: dump_method_unfold [OF assms(1-5)] split: sum.splits)
    moreover from assms(5) have "0 < unat n" by (simp add: unat_gt_0)
    ultimately have len: "unat n \<le> length data" by (rule emit_loop_Inr_bounds)
    from assms(6) dump_method_line [OF assms(1-5) vt len, of os] vt len show ?thesis by simp
  qed
qed

lemma list_all_take_zero:
  "k \<le> length data \<Longrightarrow> list_all (\<lambda>b. b = 0) (take k data) \<longleftrightarrow> (\<forall>i<k. data ! i = (0::u8))"
  by (simp add: list_all_length)

lemma reference_dump_unfold:
  assumes "IsMiniTraceable m" "has_code_item m" "GetCoverageData m = Some data"
    and "ucast (InsnsSizeInCodeUnits m) = n" "n \<noteq> 0" "unat n \<le> length data"
  shows "reference_dump os (Some m) =
     (if \<forall>i < unat n. data ! i = 0 then Inr (os, Some data)
      else Inr (os @ line_header m n @ map bit_char (take (unat n) data) @ [NL],
                Some (replicate (unat n) 0 @ drop (unat n) data)))"
  using assms emit_loop_in_bounds [of 0 "unat n" data "os @ line_header m n"]
  by (simp add: reference_dump_def list_all_take_zero)

section \<open>Claims about the dump of one method\<close>

text \<open>
  Claim C10. \<^verbatim>\<open>DumpCoverageData(os, method)\<close> writes nothing to the stream and leaves the
  coverage array as it is whenever the method is null, is not marked traceable, has no code
  item, has a null coverage array, or has an instruction count of zero.
\<close>

theorem C10_early_returns:
  "method_ptr = None \<or>
   (\<exists>m. method_ptr = Some m \<and>
      (\<not> IsMiniTraceable m \<or> \<not> has_code_item m \<or> GetCoverageData m = None \<or>
       InsnsSizeInCodeUnits m = 0)) \<Longrightarrow>
   DumpCoverageData_method os method_ptr =
     Inr (os, case method_ptr of None \<Rightarrow> None | Some m \<Rightarrow> GetCoverageData m)"
  by (auto simp: DumpCoverageData_method_def split: option.splits)

theorem C10_early_returns_witness:
  "DumpCoverageData_method ''Dump'' (Some (example_method 0 [1, 0, 2, 0])) =
     Inr (''Dump'', Some [1, 0, 2, 0]) \<and>
   DumpCoverageData_method ''Dump'' (Some ((example_method 3 [1, 0, 2, 0])\<lparr>IsMiniTraceable := False\<rparr>)) =
     Inr (''Dump'', Some [1, 0, 2, 0]) \<and>
   DumpCoverageData_method ''Dump'' None = Inr (''Dump'', None)"
  using C10_early_returns [of "Some (example_method 0 [1, 0, 2, 0])" "''Dump''"]
    C10_early_returns [of "Some ((example_method 3 [1, 0, 2, 0])\<lparr>IsMiniTraceable := False\<rparr>)" "''Dump''"]
    C10_early_returns [of None "''Dump''"]
  by (simp add: example_method_def)

text \<open>
  Claim C4. For a method that passes the skip checks and whose dump returns, the line is the
  header, whose last field prints \<open>insns_size\<close>, followed by exactly \<open>insns_size\<close>
  characters and the newline; character \<open>i\<close> is \<open>1\<close> exactly when byte \<open>i\<close> of the array
  was nonzero, for every \<open>i\<close> from \<open>0\<close> to \<open>insns_size - 1\<close>. The count is that of the code
  units, whatever the half length \<open>insns_size >> 1\<close> of the skip scan is.
\<close>

theorem C4_bitstring:
  assumes "IsMiniTraceable m" and "has_code_item m" and "GetCoverageData m = Some data"
    and "ucast (InsnsSizeInCodeUnits m) = n" and "n \<noteq> 0"
    and "visited_check n data = Inr True"
    and "DumpCoverageData_method os (Some m) = Inr (os', data')"
  shows "unat n \<le> length data \<and>
         os' = os @ line_header m n @ map bit_char (take (unat n) data) @ [NL] \<and>
         length (map bit_char (take (unat n) data)) = unat n \<and>
         (\<forall>i < unat n. map bit_char (take (unat n) data) ! i =
                          (if data ! i \<noteq> 0 then CHR ''1'' else CHR ''0'')) \<and>
         (\<exists>fields. line_header m n = fields @ show_dec (unat n) @ [TAB])"
proof -
  from assms(7) obtain r where "emit_loop 0 (unat n) data (os @ line_header m n) = Inr r"
    by (simp add: dump_method_unfold [OF assms(1-5)] assms(6) split: sum.splits)
  moreover from assms(5) have "0 < unat n" by (simp add: unat_gt_0)
  ultimately have len: "unat n \<le> length data" by (rule emit_loop_Inr_bounds)
  from assms(7) have "os' = os @ line_header m n @ map bit_char (take (unat n) data) @ [NL]"
    by (simp add: dump_method_line [OF assms(1-6) len])
  moreover have "\<exists>fields. line_header m n = fields @ show_dec (unat n) @ [TAB]"
    unfolding line_header_def by (metis append.assoc)
  ultimately show ?thesis using len by (simp add: bit_char_def)
qed

theorem C4_bitstring_witness:
  "visited_check 3 [1, 0, 2, 0] = Inr True \<and>
   DumpCoverageData_method ''Dump'' (Some (example_method 3 [1, 0, 2, 0])) =
     Inr (''Dump'' @ line_header (example_method 3 [1, 0, 2, 0]) 3 @ ''101'' @ [NL],
          Some [0, 0, 0, 0]) \<and>
   map bit_char (take (unat (3::u16)) [1, 0, 2, 0]) = ''101''"
proof -
  let ?m = "example_method 3 [1, 0, 2, 0]"
  have v: "visited_check 3 [1, 0, 2, 0] = Inr True"
    by (simp add: visited_check_def)
  have r: "DumpCoverageData_method ''Dump'' (Some ?m) =
     Inr (''Dump'' @ line_header ?m 3 @ ''101'' @ [NL], Some [0, 0, 0, 0])"
    by (simp add: DumpCoverageData_method_def example_method_def visited_check_def
        emit_loop.simps)
  have "IsMiniTraceable ?m" "has_code_item ?m" "GetCoverageData ?m = Some [1, 0, 2, 0]"
    "ucast (InsnsSizeInCodeUnits ?m) = (3::u16)" "(3::u16) \<noteq> 0"
    by (simp_all add: example_method_def)
  from C4_bitstring [OF this v r] v r show ?thesis by (simp add: bit_char_def)
qed

text \<open>
  Claim C5, as amended. With an array of \<open>ceil (insns_size / 2)\<close> bytes the claim fails
  (the counterexample follows the witness). What holds: when the coverage array holds at least
  \<open>4 * ((insns_size >> 1) + 1)\<close> bytes, the bytes of the 32-bit words \<open>0\<close> to
  \<open>insns_size >> 1\<close> that the skip scan may read, and no fewer than the \<open>insns_size\<close> bytes
  of the emit loop, every access of the per-method dump is inside the array: the dump
  returns and never reaches \<open>OutOfBounds\<close>.
\<close>

theorem C5_in_bounds:
  assumes "GetCoverageData m = Some data"
    and "4 * (unat (drop_bit 1 (ucast (InsnsSizeInCodeUnits m) :: u16)) + 1) \<le> length data"
  shows "\<exists>os' data'. DumpCoverageData_method os (Some m) = Inr (os', data')"
proof -
  define n :: u16 where "n = ucast (InsnsSizeInCodeUnits m)"
  from assms(2) have sb: "4 * (unat (drop_bit 1 n) + 1) \<le> length data" by (simp add: n_def)
  with half_bound [of n] have len: "unat n \<le> length data" by arith
  show ?thesis
  proof (cases "IsMiniTraceable m \<and> has_code_item m \<and> n \<noteq> 0")
    case False
    with assms(1) show ?thesis
      by (auto simp: DumpCoverageData_method_def n_def)
  next
    case True
    then have t: "IsMiniTraceable m" "has_code_item m" "n \<noteq> 0" by simp_all
    have n: "ucast (InsnsSizeInCodeUnits m) = n" by (simp add: n_def)
    from visited_check_returns [OF sb] obtain v where v: "visited_check n data = Inr v" by blast
    show ?thesis
    proof (cases v)
      case True
      with v dump_method_line [OF t(1,2) assms(1) n t(3) _ len] show ?thesis by simp
    next
      case False
      with v dump_method_skip [OF t(1,2) assms(1) n t(3)] show ?thesis by simp
    qed
  qed
qed

theorem C5_in_bounds_witness:
  "4 * (unat (drop_bit 1 (3::u16)) + 1) \<le> length [1, 0, 2, 0, 0, 0, 0, 0::u8] \<and>
   (\<exists>os' data'. DumpCoverageData_method ''Dump'' (Some (example_method 3 [1, 0, 2, 0, 0, 0, 0, 0])) =
      Inr (os', data'))"
proof -
  let ?m = "example_method 3 [1, 0, 2, 0, 0, 0, 0, 0]"
  have a: "GetCoverageData ?m = Some [1, 0, 2, 0, 0, 0, 0, 0]" by (simp add: example_method_def)
  have b: "4 * (unat (drop_bit 1 (ucast (InsnsSizeInCodeUnits ?m) :: u16)) + 1)
             \<le> length [1, 0, 2, 0, 0, 0, 0, 0::u8]"
    by (simp add: example_method_def)
  have c: "4 * (unat (drop_bit 1 (3::u16)) + 1) \<le> length [1, 0, 2, 0, 0, 0, 0, 0::u8]" by simp
  from C5_in_bounds [OF a b, of "''Dump''"] c show ?thesis by blast
qed

text \<open>
  Claim C5 as stated fails. A method of two code units with an array of
  \<open>ceil (2 / 2) = 1\<close> byte, nonzero: the emit loop reads byte \<open>1\<close>, past the array. A method
  of one code unit with an array of one zero byte: the skip scan reads the 32-bit word
  \<open>0\<close>, bytes \<open>0\<close> to \<open>3\<close>, past the array.
\<close>

theorem C5_counterexample:
  "length [1::u8] = (unat (2::u16) + 1) div 2 \<and>
   DumpCoverageData_method '''' (Some (example_method 2 [1])) = Inl OutOfBounds \<and>
   length [0::u8] = (unat (1::u16) + 1) div 2 \<and>
   DumpCoverageData_method '''' (Some (example_method 1 [0])) = Inl OutOfBounds"
  by (simp add: DumpCoverageData_method_def example_method_def visited_check_def
      emit_loop.simps scan_loop.simps read_u32_def)

text \<open>
  Claim C2, as amended. The equivalence of the claim fails (the counterexample
  follows the witness). What holds, for a traceable method with a code item, a non-null array and a
  nonzero instruction count whose dump returns: a line appears exactly when a byte that the
  skip block reads (index below \<open>4 * ((insns_size >> 1) + 1)\<close>) is nonzero, and so whenever
  a byte of index below \<open>insns_size\<close> is nonzero; when a line is written, the bytes of index
  below \<open>insns_size\<close> are zero afterwards and the others are as they were; when none is
  written the array is as it was; and a second dump of the method, with nothing executed in
  between, writes either nothing or a line whose characters are all \<open>0\<close>, and leaves the
  array as the first dump left it.
\<close>

theorem C2_drain:
  assumes "IsMiniTraceable m" and "has_code_item m" and "GetCoverageData m = Some data"
    and "ucast (InsnsSizeInCodeUnits m) = n" and "n \<noteq> 0"
    and "DumpCoverageData_method os (Some m) = Inr (os', cov')"
  shows "(os' \<noteq> os \<longleftrightarrow>
            (\<exists>j < 4 * (unat (drop_bit 1 n) + 1). j < length data \<and> data ! j \<noteq> 0)) \<and>
         ((\<exists>i < unat n. i < length data \<and> data ! i \<noteq> 0) \<longrightarrow> os' \<noteq> os) \<and>
         (os' \<noteq> os \<longrightarrow>
            unat n \<le> length data \<and>
            cov' = Some (replicate (unat n) 0 @ drop (unat n) data)) \<and>
         (os' = os \<longrightarrow> cov' = Some data) \<and>
         (\<forall>os2 os2' cov2.
            DumpCoverageData_method os2 (Some (m\<lparr>GetCoverageData := cov'\<rparr>)) = Inr (os2', cov2) \<longrightarrow>
            (os2' = os2 \<or>
             os2' = os2 @ line_header m n @ replicate (unat n) (CHR ''0'') @ [NL]) \<and>
            cov2 = cov')"
proof -
  let ?S = "\<exists>j < 4 * (unat (drop_bit 1 n) + 1). j < length data \<and> data ! j \<noteq> 0"
  from dump_method_cases [OF assms]
  consider
    (skip) "visited_check n data = Inr False" "os' = os" "cov' = Some data"
  | (line) "visited_check n data = Inr True" "unat n \<le> length data"
      "os' = os @ line_header m n @ map bit_char (take (unat n) data) @ [NL]"
      "cov' = Some (replicate (unat n) 0 @ drop (unat n) data)"
    by blast
  then show ?thesis
  proof cases
    case skip
    from visited_check_result [OF skip(1)] have nS: "\<not> ?S" by simp
    have first: "\<not> (\<exists>i < unat n. i < length data \<and> data ! i \<noteq> 0)"
    proof
      assume "\<exists>i < unat n. i < length data \<and> data ! i \<noteq> 0"
      then obtain i where "i < unat n" "i < length data" "data ! i \<noteq> 0" by blast
      moreover with half_bound [of n] have "i < 4 * (unat (drop_bit 1 n) + 1)" by arith
      ultimately show False using nS by blast
    qed
    have again: "(os2' = os2 \<or>
             os2' = os2 @ line_header m n @ replicate (unat n) (CHR ''0'') @ [NL]) \<and>
            cov2 = cov'"
      if "DumpCoverageData_method os2 (Some (m\<lparr>GetCoverageData := cov'\<rparr>)) = Inr (os2', cov2)"
      for os2 os2' cov2
    proof -
      have "m\<lparr>GetCoverageData := cov'\<rparr> = m" using assms(3) skip(3) by simp
      with that have "DumpCoverageData_method os2 (Some m) = Inr (os2', cov2)" by simp
      from dump_method_cases [OF assms(1-5) this] skip(1,3) show ?thesis by simp
    qed
    from skip nS first again show ?thesis by blast
  next
    case line
    from visited_check_result [OF line(1)] have S: "?S" by simp
    from line(3) have ne: "os' \<noteq> os" by simp
    let ?d1 = "replicate (unat n) 0 @ drop (unat n) data"
    let ?m1 = "m\<lparr>GetCoverageData := cov'\<rparr>"
    have m1: "IsMiniTraceable ?m1" "has_code_item ?m1" "GetCoverageData ?m1 = Some ?d1"
      "ucast (InsnsSizeInCodeUnits ?m1) = n"
      using assms(1,2,4) line(4) by simp_all
    have tk: "take (unat n) ?d1 = replicate (unat n) 0" by simp
    have dr: "drop (unat n) ?d1 = drop (unat n) data" by simp
    have again: "(os2' = os2 \<or>
             os2' = os2 @ line_header m n @ replicate (unat n) (CHR ''0'') @ [NL]) \<and>
            cov2 = cov'"
      if "DumpCoverageData_method os2 (Some ?m1) = Inr (os2', cov2)"
      for os2 os2' cov2
      using dump_method_cases [OF m1 assms(5) that] line(4)
      by (auto simp only: tk dr map_bit_char_zeros line_header_cov)
    from line ne S again show ?thesis by blast
  qed
qed

theorem C2_drain_witness:
  "DumpCoverageData_method ''Dump'' (Some (example_method 4 [0, 0, 7, 0, 0, 0, 0, 0, 0, 0, 0, 0])) =
     Inr (''Dump'' @ line_header (example_method 4 [0, 0, 7, 0, 0, 0, 0, 0, 0, 0, 0, 0]) 4 @
            ''0010'' @ [NL],
          Some [0, 0, 0, 0, 0, 0, 0, 0, 0, 0, 0, 0]) \<and>
   (\<exists>j < 4 * (unat (drop_bit 1 (4::u16)) + 1).
      j < length [0, 0, 7, 0, 0, 0, 0, 0, 0, 0, 0, 0 :: u8] \<and>
      [0, 0, 7, 0, 0, 0, 0, 0, 0, 0, 0, 0 :: u8] ! j \<noteq> 0) \<and>
   DumpCoverageData_method ''Dump''
       (Some (example_method 4 [0, 0, 0, 0, 0, 0, 0, 0, 0, 0, 0, 0])) =
     Inr (''Dump'', Some [0, 0, 0, 0, 0, 0, 0, 0, 0, 0, 0, 0])"
proof -
  let ?d = "[0, 0, 7, 0, 0, 0, 0, 0, 0, 0, 0, 0 :: u8]"
  let ?z = "[0, 0, 0, 0, 0, 0, 0, 0, 0, 0, 0, 0 :: u8]"
  let ?m = "example_method 4 ?d"
  have r: "DumpCoverageData_method ''Dump'' (Some ?m) =
     Inr (''Dump'' @ line_header ?m 4 @ ''0010'' @ [NL], Some ?z)"
    by (simp add: DumpCoverageData_method_def example_method_def visited_check_def
        emit_loop.simps scan_loop.simps read_u32_def)
  have r2: "DumpCoverageData_method ''Dump'' (Some (example_method 4 ?z)) = Inr (''Dump'', Some ?z)"
    by (simp add: DumpCoverageData_method_def example_method_def visited_check_def
        scan_loop.simps read_u32_def)
  have h: "IsMiniTraceable ?m" "has_code_item ?m" "GetCoverageData ?m = Some ?d"
    "ucast (InsnsSizeInCodeUnits ?m) = (4::u16)" "(4::u16) \<noteq> 0"
    by (simp_all add: example_method_def)
  have ne: "''Dump'' @ line_header ?m 4 @ ''0010'' @ [NL] \<noteq> ''Dump''" by simp
  from conjunct1 [OF C2_drain [OF h r]] ne
  have ex: "\<exists>j < 4 * (unat (drop_bit 1 (4::u16)) + 1). j < length ?d \<and> ?d ! j \<noteq> 0"
    by blast
  show ?thesis by (rule conjI [OF r conjI [OF ex r2]])
qed

text \<open>
  Claim C2 as stated fails. A method of one code unit whose array is \<open>[0, 1, 0, 0]\<close>: byte
  \<open>0\<close>, the only byte the line reports, is zero, yet the word scan finds the word \<open>0\<close>
  nonzero and a line (with the one character \<open>0\<close>) is written; byte \<open>1\<close> was nonzero and
  is still nonzero after the line is written.
\<close>

theorem C2_counterexample:
  "DumpCoverageData_method '''' (Some (example_method 1 [0, 1, 0, 0])) =
     Inr (line_header (example_method 1 [0, 1, 0, 0]) 1 @ ''0'' @ [NL], Some [0, 1, 0, 0]) \<and>
   \<not> (line_emitted '''' (example_method 1 [0, 1, 0, 0]) \<longleftrightarrow>
        (\<exists>i < unat (1::u16). [0, 1, 0, 0 :: u8] ! i \<noteq> 0))"
  by (simp add: line_emitted_def DumpCoverageData_method_def example_method_def
      visited_check_def emit_loop.simps scan_loop.simps read_u32_def)

text \<open>
  Claim C3, as amended. The fast path is not equivalent to the reference scan
  (the counterexample follows the witness). What holds, when the array holds the
  \<open>4 * ((insns_size >> 1) + 1)\<close> bytes the word scan may read: the method is skipped exactly
  when every one of these bytes is zero; the result is that of \<open>reference_dump\<close> when a byte
  of index below \<open>insns_size\<close> is nonzero and when all the scanned bytes are zero; in the
  remaining case (the bytes below \<open>insns_size\<close> zero, a later scanned byte nonzero) the code
  writes a line of \<open>insns_size\<close> characters \<open>0\<close> where the reference writes nothing.
\<close>

theorem C3_fast_path:
  assumes "IsMiniTraceable m" and "has_code_item m" and "GetCoverageData m = Some data"
    and "ucast (InsnsSizeInCodeUnits m) = n" and "n \<noteq> 0"
    and "4 * (unat (drop_bit 1 n) + 1) \<le> length data"
  shows "(\<not> line_emitted os m \<longleftrightarrow> (\<forall>j < 4 * (unat (drop_bit 1 n) + 1). data ! j = 0)) \<and>
         ((\<exists>i < unat n. data ! i \<noteq> 0) \<or> (\<forall>j < 4 * (unat (drop_bit 1 n) + 1). data ! j = 0) \<longrightarrow>
            DumpCoverageData_method os (Some m) = reference_dump os (Some m)) \<and>
         ((\<forall>i < unat n. data ! i = 0) \<and> (\<exists>j < 4 * (unat (drop_bit 1 n) + 1). data ! j \<noteq> 0) \<longrightarrow>
            DumpCoverageData_method os (Some m) =
              Inr (os @ line_header m n @ replicate (unat n) (CHR ''0'') @ [NL], Some data) \<and>
            reference_dump os (Some m) = Inr (os, Some data))"
proof -
  let ?K = "4 * (unat (drop_bit 1 n) + 1)"
  from assms(6) half_bound [of n] have len: "unat n \<le> length data" by arith
  from visited_check_returns [OF assms(6)] obtain v where v: "visited_check n data = Inr v"
    by blast
  from visited_check_result [OF v] assms(6)
  have vS: "v = (\<exists>j < ?K. data ! j \<noteq> 0)" by auto
  have sub: "\<exists>j < ?K. data ! j \<noteq> 0" if "\<exists>i < unat n. data ! i \<noteq> 0"
  proof -
    from that obtain i where "i < unat n" "data ! i \<noteq> 0" by blast
    moreover with half_bound [of n] have "i < ?K" by arith
    ultimately show ?thesis by blast
  qed
  note ref = reference_dump_unfold [OF assms(1-5) len, of os]
  show ?thesis
  proof (cases v)
    case False
    with v have d: "DumpCoverageData_method os (Some m) = Inr (os, Some data)"
      using dump_method_skip [OF assms(1-5)] by simp
    from False vS have z: "\<forall>j < ?K. data ! j = 0" by simp
    with sub have "\<forall>i < unat n. data ! i = 0" by blast
    with d z ref show ?thesis by (simp add: line_emitted_def)
  next
    case True
    with v have vt: "visited_check n data = Inr True" by simp
    note d = dump_method_line [OF assms(1-5) vt len, of os]
    from True vS have S: "\<exists>j < ?K. data ! j \<noteq> 0" by simp
    have le: "line_emitted os m" using d by (simp add: line_emitted_def)
    show ?thesis
    proof (cases "\<forall>i < unat n. data ! i = 0")
      case z: True
      with len have "take (unat n) data = replicate (unat n) 0" by (simp add: take_all_zero)
      moreover then have "replicate (unat n) 0 @ drop (unat n) data = data"
        by (metis append_take_drop_id)
      ultimately have "DumpCoverageData_method os (Some m) =
          Inr (os @ line_header m n @ replicate (unat n) (CHR ''0'') @ [NL], Some data)"
        using d by (simp add: bit_char_def)
      with z S le ref show ?thesis by auto
    next
      case nz: False
      with d ref S le show ?thesis by auto
    qed
  qed
qed

theorem C3_fast_path_witness:
  "4 * (unat (drop_bit 1 (4::u16)) + 1) \<le> length [0, 0, 7, 0, 0, 0, 0, 0, 0, 0, 0, 0 :: u8] \<and>
   (\<exists>i < unat (4::u16). [0, 0, 7, 0, 0, 0, 0, 0, 0, 0, 0, 0 :: u8] ! i \<noteq> 0) \<and>
   DumpCoverageData_method ''Dump'' (Some (example_method 4 [0, 0, 7, 0, 0, 0, 0, 0, 0, 0, 0, 0])) =
     reference_dump ''Dump'' (Some (example_method 4 [0, 0, 7, 0, 0, 0, 0, 0, 0, 0, 0, 0])) \<and>
   line_emitted ''Dump'' (example_method 4 [0, 0, 7, 0, 0, 0, 0, 0, 0, 0, 0, 0])"
proof -
  let ?d = "[0, 0, 7, 0, 0, 0, 0, 0, 0, 0, 0, 0 :: u8]"
  let ?m = "example_method 4 ?d"
  have h: "IsMiniTraceable ?m" "has_code_item ?m" "GetCoverageData ?m = Some ?d"
    "ucast (InsnsSizeInCodeUnits ?m) = (4::u16)" "(4::u16) \<noteq> 0"
    by (simp_all add: example_method_def)
  have b: "4 * (unat (drop_bit 1 (4::u16)) + 1) \<le> length ?d" by simp
  have "?d ! 2 \<noteq> 0" by simp
  moreover have "(2::nat) < unat (4::u16)" by simp
  ultimately have ex: "\<exists>i < unat (4::u16). ?d ! i \<noteq> 0" by blast
  note c = C3_fast_path [OF h b, of "''Dump''"]
  from c ex have eq: "DumpCoverageData_method ''Dump'' (Some ?m) = reference_dump ''Dump'' (Some ?m)"
    by blast
  from ex half_bound [of "4::u16"]
  have "\<not> (\<forall>j < 4 * (unat (drop_bit 1 (4::u16)) + 1). ?d ! j = 0)"
    by (meson less_le_trans)
  with c have le: "line_emitted ''Dump'' ?m" by blast
  show ?thesis by (rule conjI [OF b conjI [OF ex conjI [OF eq le]]])
qed

text \<open>
  Claim C3 as stated fails. A method of two code units whose array is
  \<open>[0, 0, 0, 0, 0, 1, 0, 0]\<close>: bytes \<open>0\<close> and \<open>1\<close>, those the emit loop reports, are zero,
  but the method is not skipped, since the scan reads the words \<open>0\<close> and \<open>1\<close> and byte
  \<open>5\<close> is nonzero; the code writes a line and the reference writes nothing.
\<close>

theorem C3_counterexample:
  "DumpCoverageData_method '''' (Some (example_method 2 [0, 0, 0, 0, 0, 1, 0, 0])) =
     Inr (line_header (example_method 2 [0, 0, 0, 0, 0, 1, 0, 0]) 2 @ ''00'' @ [NL],
          Some [0, 0, 0, 0, 0, 1, 0, 0]) \<and>
   reference_dump '''' (Some (example_method 2 [0, 0, 0, 0, 0, 1, 0, 0])) =
     Inr ('''', Some [0, 0, 0, 0, 0, 1, 0, 0]) \<and>
   \<not> (\<not> line_emitted '''' (example_method 2 [0, 0, 0, 0, 0, 1, 0, 0]) \<longleftrightarrow>
        (\<forall>i < unat (2::u16). [0, 0, 0, 0, 0, 1, 0, 0 :: u8] ! i = 0))"
  by (auto simp: line_emitted_def DumpCoverageData_method_def reference_dump_def
      example_method_def visited_check_def emit_loop.simps scan_loop.simps read_u32_def
      less_2_cases_iff)


section \<open>The session, the log and the files\<close>

lemma LOG_fields [simp]:
  "the_trace (LOG sev msg s) = the_trace s"
  "listeners (LOG sev msg s) = listeners s"
  "method_tracing (LOG sev msg s) = method_tracing s"
  "classes (LOG sev msg s) = classes s"
  "fs (LOG sev msg s) = fs s"
  "write_ok (LOG sev msg s) = write_ok s"
  "flush_ok (LOG sev msg s) = flush_ok s"
  "create_ok (LOG sev msg s) = create_ok s"
  "uid (LOG sev msg s) = uid s"
  "log (LOG sev msg s) = log s @ [(sev, msg)]"
  by (simp_all add: LOG_def)

lemma IsMiniTraceActive_LOG [simp]: "IsMiniTraceActive (LOG sev msg s) = IsMiniTraceActive s"
  by (simp add: IsMiniTraceActive_def)

lemma Erase_fields [simp]:
  "the_trace (Erase name s) = the_trace s"
  "listeners (Erase name s) = listeners s"
  "method_tracing (Erase name s) = method_tracing s"
  "classes (Erase name s) = classes s"
  by (simp_all add: Erase_def split: option.splits)

lemma WriteFully_append_fields [simp]:
  "the_trace (WriteFully_append name text s) = the_trace s"
  "listeners (WriteFully_append name text s) = listeners s"
  "method_tracing (WriteFully_append name text s) = method_tracing s"
  "classes (WriteFully_append name text s) = classes s"
  "flush_ok (WriteFully_append name text s) = flush_ok s"
  by (simp_all add: WriteFully_append_def split: option.splits)

lemma write_out_fields [simp]:
  "the_trace (write_out name text s) = the_trace s"
  "listeners (write_out name text s) = listeners s"
  "method_tracing (write_out name text s) = method_tracing s"
  "classes (write_out name text s) = classes s"
  by (simp_all add: write_out_def Let_def)

lemma open_or_create_fields:
  "open_or_create s name = Some s1 \<Longrightarrow>
     the_trace s1 = the_trace s \<and> listeners s1 = listeners s \<and>
     method_tracing s1 = method_tracing s \<and> classes s1 = classes s"
  by (auto simp: open_or_create_def OpenFileWithFlags_RDWR_APPEND_def CreateEmptyFile_def
      split: if_splits option.splits)

lemma DumpCoverageData_inactive:
  "\<not> IsMiniTraceActive s \<Longrightarrow> DumpCoverageData start s = Inr s"
  by (simp add: DumpCoverageData_def)

text \<open>\<^verbatim>\<open>Stop\<close> in closed form: the dump at its end finds no session.\<close>

lemma Stop_eq:
  "Stop s =
     Inr (if the_trace s = None
          then LOG ERROR ''Trace stop requested, but no trace currently running'' s
          else s\<lparr>the_trace := None, method_tracing := False,
                 listeners := remove1 MiniTrace (listeners s)\<rparr>)"
proof (cases "the_trace s")
  case None
  then show ?thesis
    by (simp add: Stop_def DumpCoverageData_inactive IsMiniTraceActive_def)
next
  case (Some t)
  then have "t = MiniTrace" by (cases t) simp
  with Some show ?thesis
    by (simp add: Stop_def DumpCoverageData_inactive IsMiniTraceActive_def
        RemoveListener_def DisableMethodTracing_def)
qed

lemma DumpCoverageData_start:
  "\<exists>s'. DumpCoverageData True s = Inr s' \<and> the_trace s' = the_trace s \<and>
        listeners s' = listeners s \<and> method_tracing s' = method_tracing s \<and>
        classes s' = classes s"
proof (cases "IsMiniTraceActive s")
  case False
  then show ?thesis by (simp add: DumpCoverageData_inactive)
next
  case True
  show ?thesis
  proof (cases "open_or_create s (coverage_data_filename s)")
    case None
    with True show ?thesis by (simp add: DumpCoverageData_def)
  next
    case (Some s1)
    from open_or_create_fields [OF Some] True Some show ?thesis
      by (simp add: DumpCoverageData_def)
  qed
qed

lemma LOG_twice:
  "LOG sev2 msg2 (LOG sev1 msg1 s) = s\<lparr>log := log s @ [(sev1, msg1), (sev2, msg2)]\<rparr>"
  by (simp add: LOG_def)

lemma names_LOG [simp]:
  "trace_config_filename (LOG sev msg s) = trace_config_filename s"
  "FileExists (LOG sev msg s) name = FileExists s name"
  "ifstream_opens (LOG sev msg s) name = ifstream_opens s name"
  by (simp_all add: trace_config_filename_def FileExists_def ifstream_opens_def)

text \<open>\<^verbatim>\<open>Start\<close> by cases: a session exists; the config file is absent; it does not open.\<close>

lemma Start_active:
  "IsMiniTraceActive s \<Longrightarrow>
   Start s = Inr (s\<lparr>log := log s @ [(INFO, ''MiniTrace: Try to start''),
                    (ERROR, ''Trace already in progress, ignoring this request'')]\<rparr>)"
  by (simp add: Start_def IsMiniTraceActive_def LOG_twice)

lemma Start_no_config:
  "\<not> IsMiniTraceActive s \<Longrightarrow> \<not> FileExists s (trace_config_filename s) \<Longrightarrow>
   Start s = Inr (s\<lparr>log := log s @ [(INFO, ''MiniTrace: Try to start''),
                    (INFO, ''MiniTrace: config file '' @ trace_config_filename s @
                           '' does not exist'')]\<rparr>)"
  by (simp add: Start_def IsMiniTraceActive_def LOG_twice)

lemma Start_unreadable_config:
  "\<not> IsMiniTraceActive s \<Longrightarrow> FileExists s (trace_config_filename s) \<Longrightarrow>
   \<not> ifstream_opens s (trace_config_filename s) \<Longrightarrow>
   Start s = Inr (s\<lparr>log := log s @ [(INFO, ''MiniTrace: Try to start''),
                    (INFO, ''MiniTrace: config file '' @ trace_config_filename s @
                           '' exists but can't be opened'')]\<rparr>)"
  by (simp add: Start_def IsMiniTraceActive_def LOG_twice)

lemma Start_admitted:
  "\<not> IsMiniTraceActive s \<Longrightarrow> FileExists s (trace_config_filename s) \<Longrightarrow>
   ifstream_opens s (trace_config_filename s) \<Longrightarrow>
   Start s = DumpCoverageData True (create_trace (LOG INFO ''MiniTrace: Try to start'' s))"
  by (simp add: Start_def IsMiniTraceActive_def)

lemma Stop_never_dumps:
  "\<exists>s'. Stop s = Inr s' \<and> fs s' = fs s \<and> classes s' = classes s \<and> \<not> IsMiniTraceActive s'"
  by (simp add: Stop_eq IsMiniTraceActive_def)

lemma dump_while_active_example:
  "\<exists>s'. DumpCoverageData False example_runtime = Inr s' \<and>
     fs s' ''/data/mini_trace_10001_coverage.dat'' =
       Some \<lparr>contents = ''Dump'' @ [TAB] @ ''4242'' @ [TAB] @ ''1000'' @ [NL] @
                 line_header (example_method 4 [0, 0, 7, 0, 0, 0, 0, 0, 0, 0, 0, 0]) 4 @
                 ''0010'' @ [NL],
             can_read = True, can_write = True\<rparr>"
proof -
  have n: "coverage_data_filename example_runtime = ''/data/mini_trace_10001_coverage.dat''"
    by (simp add: coverage_data_filename_def example_runtime_def show_int_def show_dec_def
        show_base.simps digit_char_def)
  have e: "envelope ''Dump'' (LOG INFO msg example_runtime) =
      ''Dump'' @ [TAB] @ ''4242'' @ [TAB] @ ''1000'' @ [NL]" for msg
    by (simp add: envelope_def example_runtime_def LOG_def show_int_def show_dec_def
        show_base.simps digit_char_def)
  have o: "open_or_create example_runtime ''/data/mini_trace_10001_coverage.dat'' =
      Some example_runtime"
    by (simp add: open_or_create_def FileExists_def OpenFileWithFlags_RDWR_APPEND_def
        example_runtime_def)
  have m: "DumpCoverageData_method os (Some (example_method 4 [0, 0, 7, 0, 0, 0, 0, 0, 0, 0, 0, 0])) =
     Inr (os @ line_header (example_method 4 [0, 0, 7, 0, 0, 0, 0, 0, 0, 0, 0, 0]) 4 @ ''0010'' @ [NL],
          Some [0, 0, 0, 0, 0, 0, 0, 0, 0, 0, 0, 0])" for os
    by (simp add: DumpCoverageData_method_def example_method_def visited_check_def
        emit_loop.simps scan_loop.simps read_u32_def)
  have c: "classes example_runtime = [example_class]" by (simp add: example_runtime_def)
  have v: "DumpCoverageDataClassVisitor os example_class =
     Inr (os @ line_header (example_method 4 [0, 0, 7, 0, 0, 0, 0, 0, 0, 0, 0, 0]) 4 @ ''0010'' @ [NL],
          example_class\<lparr>GetDeclaredMethods :=
             [example_method 4 [0, 0, 0, 0, 0, 0, 0, 0, 0, 0, 0, 0]]\<rparr>)" for os
    by (simp add: DumpCoverageDataClassVisitor_def example_class_def m)
       (simp add: example_method_def)
  have a: "IsMiniTraceActive example_runtime"
    by (simp add: IsMiniTraceActive_def example_runtime_def)
  show ?thesis
    using a by (simp add: DumpCoverageData_def n o e c v write_out_def)
       (simp add: example_runtime_def WriteFully_append_def LOG_def)
qed

section \<open>The class filter and the class table\<close>

lemma PostClassPrepare_excluded: "\<not> eligible k \<Longrightarrow> PostClassPrepare s k = k"
  by (auto simp: PostClassPrepare_def eligible_def)

lemma PostClassPrepare_eligible:
  "eligible k \<Longrightarrow>
   PostClassPrepare s k =
     (if IsMiniTraceActive s then k\<lparr>klass_IsMiniTraceable := True, stubs_installed := True\<rparr>
      else k\<lparr>klass_IsMiniTraceable := True\<rparr>)"
  by (simp add: PostClassPrepare_def eligible_def SetIsMiniTraceable_def InstallStubsForClass_def)

lemma eligible_PostClassPrepare [simp]: "eligible (PostClassPrepare s k) = eligible k"
  by (cases "eligible k") (simp_all add: PostClassPrepare_excluded PostClassPrepare_eligible eligible_def)

lemma marked_PostClassPrepare:
  "klass_IsMiniTraceable (PostClassPrepare s k) = (klass_IsMiniTraceable k \<or> eligible k)"
  by (cases "eligible k") (simp_all add: PostClassPrepare_excluded PostClassPrepare_eligible)

lemma stubs_PostClassPrepare:
  "stubs_installed (PostClassPrepare s k) =
     (stubs_installed k \<or> (eligible k \<and> IsMiniTraceActive s))"
  by (cases "eligible k") (simp_all add: PostClassPrepare_excluded PostClassPrepare_eligible)

lemma PostClassPrepare_idem: "PostClassPrepare s (PostClassPrepare s k) = PostClassPrepare s k"
  by (cases "eligible k") (simp_all add: PostClassPrepare_excluded PostClassPrepare_eligible eligible_def)

lemma PostClassPrepare_settled:
  "klass_IsMiniTraceable k \<Longrightarrow> \<not> IsMiniTraceActive s \<or> stubs_installed k \<Longrightarrow>
   PostClassPrepare s k = k"
  by (cases "eligible k") (auto simp: PostClassPrepare_excluded PostClassPrepare_eligible)

lemma PostClassPrepare_active_cong:
  "IsMiniTraceActive s = IsMiniTraceActive t \<Longrightarrow> PostClassPrepare s k = PostClassPrepare t k"
  by (simp add: PostClassPrepare_def)

text \<open>The dump writes to the coverage arrays of the methods and to nothing else of a class.\<close>

lemma class_visitor_kind_and_flags:
  "DumpCoverageDataClassVisitor os k = Inr (os', k') \<Longrightarrow> kind_and_flags k' = kind_and_flags k"
  by (auto simp: DumpCoverageDataClassVisitor_def kind_and_flags_def
      split: if_splits sum.splits)

lemma VisitClasses_dump_kind_and_flags:
  "VisitClasses_dump os cs = Inr (os', cs') \<Longrightarrow>
   map kind_and_flags cs' = map kind_and_flags cs"
proof (induction cs arbitrary: os os' cs')
  case Nil
  then show ?case by simp
next
  case (Cons k cs)
  from Cons.prems obtain os1 k' os2 rest'
    where k: "DumpCoverageDataClassVisitor os k = Inr (os1, k')"
      and r: "VisitClasses_dump os1 cs = Inr (os2, rest')"
      and c: "cs' = k' # rest'"
    by (auto split: sum.splits)
  from class_visitor_kind_and_flags [OF k] Cons.IH [OF r] c show ?case by simp
qed

lemma DumpCoverageData_effect:
  assumes "DumpCoverageData start s = Inr s'"
  shows "the_trace s' = the_trace s \<and>
         map kind_and_flags (classes s') = map kind_and_flags (classes s)"
proof (cases "IsMiniTraceActive s")
  case False
  with assms show ?thesis by (simp add: DumpCoverageData_inactive)
next
  case True
  show ?thesis
  proof (cases "open_or_create s (coverage_data_filename s)")
    case None
    with True assms show ?thesis by (auto simp: DumpCoverageData_def)
  next
    case (Some s1)
    note f = open_or_create_fields [OF Some]
    show ?thesis
    proof (cases start)
      case True
      with \<open>IsMiniTraceActive s\<close> Some assms f show ?thesis
        by (auto simp: DumpCoverageData_def)
    next
      case False
      with \<open>IsMiniTraceActive s\<close> Some assms obtain os cs'
        where v: "VisitClasses_dump
                    (envelope ''Dump'' (LOG INFO ''MiniTrace: Try to dump coverage data'' s1))
                    (classes s1) = Inr (os, cs')"
          and s': "s' = write_out (coverage_data_filename s) os
                     ((LOG INFO ''MiniTrace: Try to dump coverage data'' s1)\<lparr>classes := cs'\<rparr>)"
        by (auto simp: DumpCoverageData_def Let_def split: sum.splits)
      from VisitClasses_dump_kind_and_flags [OF v] f s' show ?thesis by simp
    qed
  qed
qed

lemma create_trace_effect:
  "(the_trace s \<noteq> None \<and> the_trace (create_trace s) = the_trace s \<and>
      classes (create_trace s) = classes s) \<or>
   (the_trace s = None \<and> IsMiniTraceActive (create_trace s) \<and>
      classes (create_trace s) = map (PostClassPrepare (create_trace s)) (classes s))"
proof (cases "the_trace s")
  case None
  have "PostClassPrepare (create_trace s) = PostClassPrepare (s\<lparr>the_trace := Some MiniTrace\<rparr>)"
    using None
    by (intro ext PostClassPrepare_active_cong)
      (simp add: create_trace_def IsMiniTraceActive_def AddListener_def
        EnableMethodTracing_def Let_def)
  moreover have "PostClassPrepare (EnableMethodTracing (AddListener MiniTrace
                   (s\<lparr>the_trace := Some MiniTrace\<rparr>)))
     = PostClassPrepare (s\<lparr>the_trace := Some MiniTrace\<rparr>)"
    by (intro ext PostClassPrepare_active_cong)
      (simp add: IsMiniTraceActive_def AddListener_def EnableMethodTracing_def)
  ultimately show ?thesis using None
    by (simp add: create_trace_def IsMiniTraceActive_def AddListener_def
        EnableMethodTracing_def Let_def)
next
  case (Some t)
  then show ?thesis by (simp add: create_trace_def)
qed

text \<open>What \<^verbatim>\<open>Start\<close> does to the session and to the classes.\<close>

lemma Start_effect:
  assumes "Start s = Inr s'"
  shows "(the_trace s' = the_trace s \<and> classes s' = classes s) \<or>
         (\<not> IsMiniTraceActive s \<and> IsMiniTraceActive s' \<and>
          classes s' = map (PostClassPrepare s') (classes s))"
proof (cases "IsMiniTraceActive s")
  case True
  from Start_active [OF True] assms show ?thesis by auto
next
  case False
  show ?thesis
  proof (cases "FileExists s (trace_config_filename s)")
    case f: False
    from Start_no_config [OF False f] assms show ?thesis by auto
  next
    case t: True
    show ?thesis
    proof (cases "ifstream_opens s (trace_config_filename s)")
      case o: False
      from Start_unreadable_config [OF False t o] assms show ?thesis by auto
    next
      case o: True
      let ?s0 = "LOG INFO ''MiniTrace: Try to start'' s"
      from Start_admitted [OF False t o] assms
      have d: "DumpCoverageData True (create_trace ?s0) = Inr s'" by simp
      from DumpCoverageData_start [of "create_trace ?s0"] d
      have e: "the_trace s' = the_trace (create_trace ?s0)"
        "classes s' = classes (create_trace ?s0)" by auto
      from False have n: "the_trace ?s0 = None" by (simp add: IsMiniTraceActive_def)
      with create_trace_effect [of ?s0]
      have a: "IsMiniTraceActive (create_trace ?s0)"
        and c: "classes (create_trace ?s0) = map (PostClassPrepare (create_trace ?s0)) (classes s)"
        by auto
      from a e have a': "IsMiniTraceActive s'" by (simp add: IsMiniTraceActive_def)
      with a have "PostClassPrepare (create_trace ?s0) = PostClassPrepare s'"
        by (intro ext PostClassPrepare_active_cong) simp
      with False a' c e show ?thesis by simp
    qed
  qed
qed

lemma kind_and_flags_simps [simp]:
  "eligible (kind_and_flags k) = eligible k"
  "untouched (kind_and_flags k) = untouched k"
  "klass_IsMiniTraceable (kind_and_flags k) = klass_IsMiniTraceable k"
  "stubs_installed (kind_and_flags k) = stubs_installed k"
  by (simp_all add: kind_and_flags_def eligible_def untouched_def)

lemma same_kind_and_flags:
  assumes "kind_and_flags k' = kind_and_flags k"
  shows "eligible k' = eligible k" "untouched k' = untouched k"
    "klass_IsMiniTraceable k' = klass_IsMiniTraceable k" "stubs_installed k' = stubs_installed k"
  using kind_and_flags_simps [of k'] kind_and_flags_simps [of k] assms by simp_all

lemma map_kind_and_flags_nth:
  assumes "map kind_and_flags cs' = map kind_and_flags cs" and "i < length cs"
  shows "i < length cs' \<and> kind_and_flags (cs' ! i) = kind_and_flags (cs ! i)"
proof -
  from assms(1) have l: "length cs' = length cs" by (rule map_eq_imp_length_eq)
  with assms(2) have "map kind_and_flags cs' ! i = kind_and_flags (cs' ! i)"
    "map kind_and_flags cs ! i = kind_and_flags (cs ! i)" by simp_all
  with assms l show ?thesis by simp
qed

lemma map_kind_and_flags_list_all:
  assumes "map kind_and_flags cs' = map kind_and_flags cs"
  shows "list_all (\<lambda>c. P (kind_and_flags c)) cs' = list_all (\<lambda>c. P (kind_and_flags c)) cs"
proof -
  have "list_all (\<lambda>c. P (kind_and_flags c)) cs' = list_all P (map kind_and_flags cs')"
    by (simp add: list.pred_map comp_def)
  also have "\<dots> = list_all P (map kind_and_flags cs)" using assms by simp
  also have "\<dots> = list_all (\<lambda>c. P (kind_and_flags c)) cs" by (simp add: list.pred_map comp_def)
  finally show ?thesis .
qed

text \<open>What one request does to the session and to the class table.\<close>

lemma step_effect:
  assumes "step r s = Inr s'"
  shows "(map kind_and_flags (classes s') = map kind_and_flags (classes s) \<and>
          (IsMiniTraceActive s' \<longrightarrow> IsMiniTraceActive s)) \<or>
         (IsMiniTraceActive s' \<and> classes s' = map (PostClassPrepare s') (classes s)) \<or>
         (\<exists>k. r = ReqClassPrepare k \<and> IsMiniTraceActive s' = IsMiniTraceActive s \<and>
              classes s' = classes s @ [PostClassPrepare s' k]) \<or>
         (\<exists>i < length (classes s). IsMiniTraceActive s' = IsMiniTraceActive s \<and>
              classes s' = (classes s)[i := PostClassPrepare s' (classes s ! i)])"
proof (cases r)
  case ReqStart
  with assms have "Start s = Inr s'" by simp
  from Start_effect [OF this] show ?thesis by (auto simp: IsMiniTraceActive_def)
next
  case ReqStop
  with assms Stop_never_dumps [of s] show ?thesis by auto
next
  case ReqShutdown
  with assms Stop_never_dumps [of s] show ?thesis
    by (auto simp: Shutdown_def split: if_splits)
next
  case (ReqDump start)
  with assms have "DumpCoverageData start s = Inr s'" by simp
  from DumpCoverageData_effect [OF this] show ?thesis by (simp add: IsMiniTraceActive_def)
next
  case (ReqClassPrepare k)
  with assms have s': "s' = s\<lparr>classes := classes s @ [PostClassPrepare s k]\<rparr>" by simp
  then have a: "IsMiniTraceActive s' = IsMiniTraceActive s" by (simp add: IsMiniTraceActive_def)
  then have "PostClassPrepare s' k = PostClassPrepare s k" by (rule PostClassPrepare_active_cong)
  with s' a ReqClassPrepare show ?thesis by simp
next
  case (ReqPostClassPrepare i)
  show ?thesis
  proof (cases "i < length (classes s)")
    case False
    with assms ReqPostClassPrepare show ?thesis by simp
  next
    case True
    with assms ReqPostClassPrepare
    have s': "s' = s\<lparr>classes := (classes s)[i := PostClassPrepare s (classes s ! i)]\<rparr>" by simp
    then have a: "IsMiniTraceActive s' = IsMiniTraceActive s" by (simp add: IsMiniTraceActive_def)
    then have "PostClassPrepare s' (classes s ! i) = PostClassPrepare s (classes s ! i)"
      by (rule PostClassPrepare_active_cong)
    with s' a True show ?thesis by auto
  qed
qed

lemma excluded_untouched_iff:
  "excluded_untouched cs \<longleftrightarrow> (\<forall>c \<in> set cs. \<not> eligible c \<longrightarrow> untouched c)"
  by (auto simp: excluded_untouched_def list_all_iff)

lemma excluded_untouched_same:
  assumes "map kind_and_flags cs' = map kind_and_flags cs"
  shows "excluded_untouched cs' = excluded_untouched cs"
  using map_kind_and_flags_list_all [OF assms, of "\<lambda>c. eligible c \<or> untouched c"]
  by (simp add: excluded_untouched_def)

lemma excluded_untouched_PostClassPrepare:
  "eligible k \<or> untouched k \<Longrightarrow>
   eligible (PostClassPrepare t k) \<or> untouched (PostClassPrepare t k)"
  by (cases "eligible k") (simp_all add: PostClassPrepare_excluded)

lemma step_excluded_untouched:
  assumes "step r s = Inr s'" and "excluded_untouched (classes s)"
    and "\<And>k. r = ReqClassPrepare k \<Longrightarrow> eligible k \<or> untouched k"
  shows "excluded_untouched (classes s')"
proof -
  from assms(2) have old: "\<And>c. c \<in> set (classes s) \<Longrightarrow> eligible c \<or> untouched c"
    by (auto simp: excluded_untouched_iff)
  from step_effect [OF assms(1)]
  consider
    (same) "map kind_and_flags (classes s') = map kind_and_flags (classes s)"
  | (walk) "classes s' = map (PostClassPrepare s') (classes s)"
  | (load) k where "r = ReqClassPrepare k" "classes s' = classes s @ [PostClassPrepare s' k]"
  | (again) i where "i < length (classes s)"
      "classes s' = (classes s)[i := PostClassPrepare s' (classes s ! i)]"
    by blast
  then show ?thesis
  proof cases
    case same
    from excluded_untouched_same [OF same] assms(2) show ?thesis by simp
  next
    case walk
    show ?thesis
      unfolding excluded_untouched_iff walk
    proof (intro ballI impI)
      fix c
      assume "c \<in> set (map (PostClassPrepare s') (classes s))" and ne: "\<not> eligible c"
      then obtain k where k: "k \<in> set (classes s)" "c = PostClassPrepare s' k" by auto
      from excluded_untouched_PostClassPrepare [OF old [OF k(1)], of s'] k(2) ne
      show "untouched c" by simp
    qed
  next
    case load
    from assms(3) [OF load(1)] have "eligible k \<or> untouched k" .
    from excluded_untouched_PostClassPrepare [OF this, of s'] load(2) assms(2)
    show ?thesis by (simp add: excluded_untouched_def)
  next
    case again
    from old again(1) have "eligible (classes s ! i) \<or> untouched (classes s ! i)" by simp
    from excluded_untouched_PostClassPrepare [OF this, of s']
    have new: "eligible (PostClassPrepare s' (classes s ! i)) \<or>
               untouched (PostClassPrepare s' (classes s ! i))" .
    have sub: "set (classes s') \<subseteq> insert (PostClassPrepare s' (classes s ! i)) (set (classes s))"
      unfolding again(2) by (rule set_update_subset_insert)
    show ?thesis
      unfolding excluded_untouched_iff
    proof (intro ballI impI)
      fix c
      assume "c \<in> set (classes s')" and ne: "\<not> eligible c"
      with sub have "c = PostClassPrepare s' (classes s ! i) \<or> c \<in> set (classes s)" by auto
      with new old ne show "untouched c" by auto
    qed
  qed
qed

lemma run_excluded_untouched:
  "run rs s = Inr s' \<Longrightarrow> excluded_untouched (classes s) \<Longrightarrow>
   (\<And>k. ReqClassPrepare k \<in> set rs \<Longrightarrow> eligible k \<or> untouched k) \<Longrightarrow>
   excluded_untouched (classes s')"
proof (induction rs arbitrary: s)
  case Nil
  then show ?case by simp
next
  case (Cons r rs)
  from Cons.prems(1) obtain s1 where s1: "step r s = Inr s1" and rest: "run rs s1 = Inr s'"
    by (auto split: sum.splits)
  from step_excluded_untouched [OF s1 Cons.prems(2)] Cons.prems(3)
  have "excluded_untouched (classes s1)" by simp
  from Cons.IH [OF rest this] Cons.prems(3) show ?case by simp
qed

text \<open>The flag of a class of the table is never cleared, and its verdict never changes.\<close>

lemma step_marked:
  assumes "step r s = Inr s'" and "i < length (classes s)"
  shows "i < length (classes s') \<and>
         eligible (classes s' ! i) = eligible (classes s ! i) \<and>
         (klass_IsMiniTraceable (classes s ! i) \<longrightarrow> klass_IsMiniTraceable (classes s' ! i))"
proof -
  from step_effect [OF assms(1)]
  consider
    (same) "map kind_and_flags (classes s') = map kind_and_flags (classes s)"
  | (walk) "classes s' = map (PostClassPrepare s') (classes s)"
  | (load) k where "classes s' = classes s @ [PostClassPrepare s' k]"
  | (again) j where "j < length (classes s)"
      "classes s' = (classes s)[j := PostClassPrepare s' (classes s ! j)]"
    by blast
  then show ?thesis
  proof cases
    case same
    from map_kind_and_flags_nth [OF same assms(2)]
    have "i < length (classes s')"
      and "kind_and_flags (classes s' ! i) = kind_and_flags (classes s ! i)" by simp_all
    with same_kind_and_flags [of "classes s' ! i" "classes s ! i"] show ?thesis by simp
  next
    case walk
    with assms(2) show ?thesis by (simp add: marked_PostClassPrepare)
  next
    case load
    with assms(2) show ?thesis by (simp add: nth_append)
  next
    case again
    with assms(2) show ?thesis
      by (cases "i = j") (simp_all add: marked_PostClassPrepare)
  qed
qed

lemma run_marked:
  "run rs s = Inr s' \<Longrightarrow> i < length (classes s) \<Longrightarrow>
   i < length (classes s') \<and>
   eligible (classes s' ! i) = eligible (classes s ! i) \<and>
   (klass_IsMiniTraceable (classes s ! i) \<longrightarrow> klass_IsMiniTraceable (classes s' ! i))"
proof (induction rs arbitrary: s)
  case Nil
  then show ?case by simp
next
  case (Cons r rs)
  from Cons.prems(1) obtain s1 where s1: "step r s = Inr s1" and rest: "run rs s1 = Inr s'"
    by (auto split: sum.splits)
  from step_marked [OF s1 Cons.prems(2)] Cons.IH [OF rest, of] show ?case by simp
qed

text \<open>While a session exists, every eligible class of the table is marked and has its stubs.\<close>

lemma active_instrumented_iff:
  "active_instrumented s \<longleftrightarrow>
     (IsMiniTraceActive s \<longrightarrow>
        (\<forall>c \<in> set (classes s). eligible c \<longrightarrow> klass_IsMiniTraceable c \<and> stubs_installed c))"
  by (auto simp: active_instrumented_def list_all_iff)

lemma instrumented_PostClassPrepare:
  "IsMiniTraceActive t \<Longrightarrow> eligible (PostClassPrepare t k) \<Longrightarrow>
   klass_IsMiniTraceable (PostClassPrepare t k) \<and> stubs_installed (PostClassPrepare t k)"
  by (simp add: marked_PostClassPrepare stubs_PostClassPrepare)

lemma step_active_instrumented:
  assumes "step r s = Inr s'" and "active_instrumented s"
  shows "active_instrumented s'"
proof (cases "IsMiniTraceActive s'")
  case False
  then show ?thesis by (simp add: active_instrumented_def)
next
  case True
  from step_effect [OF assms(1)] True
  consider
    (same) "map kind_and_flags (classes s') = map kind_and_flags (classes s)"
      "IsMiniTraceActive s"
  | (walk) "classes s' = map (PostClassPrepare s') (classes s)"
  | (load) k where "IsMiniTraceActive s" "classes s' = classes s @ [PostClassPrepare s' k]"
  | (again) i where "i < length (classes s)" "IsMiniTraceActive s"
      "classes s' = (classes s)[i := PostClassPrepare s' (classes s ! i)]"
    by blast
  then show ?thesis
  proof cases
    case same
    from map_kind_and_flags_list_all [OF same(1),
        of "\<lambda>c. \<not> eligible c \<or> (klass_IsMiniTraceable c \<and> stubs_installed c)"]
      assms(2) same(2) True
    show ?thesis by (simp add: active_instrumented_def)
  next
    case walk
    show ?thesis
      unfolding active_instrumented_iff walk
    proof (intro impI ballI)
      fix c
      assume "c \<in> set (map (PostClassPrepare s') (classes s))" and e: "eligible c"
      then obtain k where k: "c = PostClassPrepare s' k" by auto
      from instrumented_PostClassPrepare [OF True, of k] k e
      show "klass_IsMiniTraceable c \<and> stubs_installed c" by simp
    qed
  next
    case load
    with True assms(2) instrumented_PostClassPrepare [OF True, of k] show ?thesis
      by (auto simp: active_instrumented_def)
  next
    case again
    from assms(2) again(2)
    have old: "\<And>c. c \<in> set (classes s) \<Longrightarrow> eligible c \<Longrightarrow>
                 klass_IsMiniTraceable c \<and> stubs_installed c"
      by (auto simp: active_instrumented_iff)
    have sub: "set (classes s') \<subseteq> insert (PostClassPrepare s' (classes s ! i)) (set (classes s))"
      unfolding again(3) by (rule set_update_subset_insert)
    show ?thesis
      unfolding active_instrumented_iff
    proof (intro impI ballI)
      fix c
      assume "c \<in> set (classes s')" and e: "eligible c"
      with sub have "c = PostClassPrepare s' (classes s ! i) \<or> c \<in> set (classes s)" by auto
      with old instrumented_PostClassPrepare [OF True, of "classes s ! i"] e
      show "klass_IsMiniTraceable c \<and> stubs_installed c" by auto
    qed
  qed
qed

lemma run_active_instrumented:
  "run rs s = Inr s' \<Longrightarrow> active_instrumented s \<Longrightarrow> active_instrumented s'"
proof (induction rs arbitrary: s)
  case Nil
  then show ?case by simp
next
  case (Cons r rs)
  from Cons.prems(1) obtain s1 where s1: "step r s = Inr s1" and rest: "run rs s1 = Inr s'"
    by (auto split: sum.splits)
  from Cons.IH [OF rest step_active_instrumented [OF s1 Cons.prems(2)]] show ?case .
qed

text \<open>A start, a stop and a second start of the idle example process.\<close>

lemma example_cycle:
  "case run [ReqStart, ReqStop, ReqStart] example_idle of
     Inl e \<Rightarrow> False
   | Inr s' \<Rightarrow> IsMiniTraceActive s' \<and>
       map klass_IsMiniTraceable (classes s') = [False, False, True] \<and>
       map stubs_installed (classes s') = [False, False, True]"
  by (simp add: Start_def Stop_eq DumpCoverageData_def create_trace_def LOG_def
      FileExists_def ifstream_opens_def open_or_create_def write_out_def
      OpenFileWithFlags_RDWR_APPEND_def CreateEmptyFile_def AddListener_def
      EnableMethodTracing_def
      WriteFully_append_def IsMiniTraceActive_def PostClassPrepare_def
      has_system_prefix_def system_framework_prefix_def SetIsMiniTraceable_def
      InstallStubsForClass_def example_idle_def example_klass_def
      trace_config_filename_def coverage_data_filename_def
      show_int_def show_dec_def show_base.simps digit_char_def Let_def)

section \<open>Claims about the lifecycle and the class filter\<close>

text \<open>
  Claim C9. \<^verbatim>\<open>Start\<close> with a session is a no-op besides logging: the state after it is the
  state before it with two log lines added, so no session is created, no listener is
  registered, nothing is written and \<^verbatim>\<open>IsMiniTraceActive()\<close> stays true. \<^verbatim>\<open>Stop\<close> without a
  session is a no-op besides logging: one log line is added and \<^verbatim>\<open>IsMiniTraceActive()\<close>
  stays false.
\<close>

theorem C9_misuse_is_noop:
  "(IsMiniTraceActive s \<longrightarrow>
      Start s = Inr (s\<lparr>log := log s @ [(INFO, ''MiniTrace: Try to start''),
                       (ERROR, ''Trace already in progress, ignoring this request'')]\<rparr>) \<and>
      (\<forall>s'. Start s = Inr s' \<longrightarrow> IsMiniTraceActive s')) \<and>
   (\<not> IsMiniTraceActive s \<longrightarrow>
      Stop s = Inr (s\<lparr>log := log s @
                       [(ERROR, ''Trace stop requested, but no trace currently running'')]\<rparr>) \<and>
      (\<forall>s'. Stop s = Inr s' \<longrightarrow> \<not> IsMiniTraceActive s'))"
  by (auto simp: Start_active Stop_eq IsMiniTraceActive_def LOG_def)

theorem C9_misuse_is_noop_witness:
  "IsMiniTraceActive example_runtime \<and>
   Start example_runtime =
     Inr (example_runtime\<lparr>log := [(INFO, ''MiniTrace: Try to start''),
            (ERROR, ''Trace already in progress, ignoring this request'')]\<rparr>) \<and>
   \<not> IsMiniTraceActive (example_runtime\<lparr>the_trace := None\<rparr>) \<and>
   Stop (example_runtime\<lparr>the_trace := None\<rparr>) =
     Inr (example_runtime\<lparr>the_trace := None,
            log := [(ERROR, ''Trace stop requested, but no trace currently running'')]\<rparr>)"
proof -
  have a: "IsMiniTraceActive example_runtime"
    by (simp add: IsMiniTraceActive_def example_runtime_def)
  have b: "\<not> IsMiniTraceActive (example_runtime\<lparr>the_trace := None\<rparr>)"
    by (simp add: IsMiniTraceActive_def)
  have l: "log example_runtime = []" by (simp add: example_runtime_def)
  from C9_misuse_is_noop [of example_runtime] a l
  have s1: "Start example_runtime =
     Inr (example_runtime\<lparr>log := [(INFO, ''MiniTrace: Try to start''),
            (ERROR, ''Trace already in progress, ignoring this request'')]\<rparr>)"
    by simp
  from C9_misuse_is_noop [of "example_runtime\<lparr>the_trace := None\<rparr>"] b l
  have s2: "Stop (example_runtime\<lparr>the_trace := None\<rparr>) =
     Inr (example_runtime\<lparr>the_trace := None,
            log := [(ERROR, ''Trace stop requested, but no trace currently running'')]\<rparr>)"
    by simp
  show ?thesis by (rule conjI [OF a conjI [OF s1 conjI [OF b s2]]])
qed

text \<open>
  Claim C8. When the trigger file \<^verbatim>\<open>/data/mini_trace_<uid>_config.in\<close> does not exist or
  does not open, \<^verbatim>\<open>Start\<close> returns the state it was called in with log lines added and no
  other change: the session pointer, \<^verbatim>\<open>IsMiniTraceActive()\<close>, the listeners, the
  method-tracing mode, the classes and every file are as before.
\<close>

theorem C8_no_trigger_file:
  assumes "\<not> FileExists s (trace_config_filename s) \<or>
           \<not> ifstream_opens s (trace_config_filename s)"
  shows "\<exists>msgs. Start s = Inr (s\<lparr>log := log s @ msgs\<rparr>) \<and>
           the_trace (s\<lparr>log := log s @ msgs\<rparr>) = the_trace s \<and>
           IsMiniTraceActive (s\<lparr>log := log s @ msgs\<rparr>) = IsMiniTraceActive s \<and>
           listeners (s\<lparr>log := log s @ msgs\<rparr>) = listeners s \<and>
           method_tracing (s\<lparr>log := log s @ msgs\<rparr>) = method_tracing s \<and>
           classes (s\<lparr>log := log s @ msgs\<rparr>) = classes s \<and>
           fs (s\<lparr>log := log s @ msgs\<rparr>) = fs s"
proof -
  have "\<exists>msgs. Start s = Inr (s\<lparr>log := log s @ msgs\<rparr>)"
  proof (cases "IsMiniTraceActive s")
    case True
    from Start_active [OF True] show ?thesis by blast
  next
    case False
    show ?thesis
    proof (cases "FileExists s (trace_config_filename s)")
      case f: False
      from Start_no_config [OF False f] show ?thesis by blast
    next
      case t: True
      with assms have "\<not> ifstream_opens s (trace_config_filename s)" by simp
      from Start_unreadable_config [OF False t this] show ?thesis by blast
    qed
  qed
  then show ?thesis by (auto simp: IsMiniTraceActive_def)
qed

theorem C8_no_trigger_file_witness:
  "\<not> FileExists (example_runtime\<lparr>the_trace := None\<rparr>)
       (trace_config_filename (example_runtime\<lparr>the_trace := None\<rparr>)) \<and>
   (\<exists>msgs. Start (example_runtime\<lparr>the_trace := None\<rparr>) =
              Inr (example_runtime\<lparr>the_trace := None, log := msgs\<rparr>))"
proof -
  let ?s = "example_runtime\<lparr>the_trace := None\<rparr>"
  have n: "trace_config_filename ?s = ''/data/mini_trace_10001_config.in''"
    by (simp add: trace_config_filename_def example_runtime_def show_dec_def show_base.simps digit_char_def)
  have a: "\<not> FileExists ?s (trace_config_filename ?s)"
    unfolding n by (simp add: FileExists_def example_runtime_def)
  then have "\<not> FileExists ?s (trace_config_filename ?s) \<or>
             \<not> ifstream_opens ?s (trace_config_filename ?s)" ..
  from C8_no_trigger_file [OF this]
  obtain msgs where "Start ?s = Inr (?s\<lparr>log := log ?s @ msgs\<rparr>)" by blast
  moreover have "log ?s = []" by (simp add: example_runtime_def)
  ultimately have "Start ?s = Inr (example_runtime\<lparr>the_trace := None, log := msgs\<rparr>)" by simp
  with a show ?thesis by blast
qed

text \<open>
  Claim C1, as amended. The claim has every \<^verbatim>\<open>Stop\<close> end with a full dump whether or not
  a session existed; it fails (the counterexample follows the witness). What holds:
  \<^verbatim>\<open>Stop\<close> ends with the call \<^verbatim>\<open>DumpCoverageData(false)\<close>, which returns at once when no
  session exists. A \<^verbatim>\<open>Stop\<close> without a session therefore performs no dump: it adds the
  error line to the log, writes to no file and leaves every class, with its coverage
  arrays, as it was. And of two \<^verbatim>\<open>Stop\<close> calls in a row, from any state, the second writes
  no \<open>Dump\<close> envelope and walks no class. What a \<^verbatim>\<open>Stop\<close> that ends a session dumps is left
  out of the amended claim.
\<close>

theorem C1_Stop_without_session:
  "(\<not> IsMiniTraceActive s \<longrightarrow>
      (\<exists>s'. Stop s = Inr s' \<and> fs s' = fs s \<and> classes s' = classes s \<and>
            \<not> IsMiniTraceActive s' \<and>
            log s' = log s @ [(ERROR, ''Trace stop requested, but no trace currently running'')])) \<and>
   (\<exists>s1 s2. Stop s = Inr s1 \<and> Stop s1 = Inr s2 \<and> fs s2 = fs s1 \<and> classes s2 = classes s1 \<and>
            log s2 = log s1 @ [(ERROR, ''Trace stop requested, but no trace currently running'')])"
proof -
  have a: "\<exists>s'. Stop t = Inr s' \<and> fs s' = fs t \<and> classes s' = classes t \<and>
            \<not> IsMiniTraceActive s' \<and>
            log s' = log t @ [(ERROR, ''Trace stop requested, but no trace currently running'')]"
    if "\<not> IsMiniTraceActive t" for t
    using that by (simp add: Stop_eq IsMiniTraceActive_def)
  from Stop_never_dumps [of s] obtain s1
    where s1: "Stop s = Inr s1" "\<not> IsMiniTraceActive s1" by blast
  from a [OF s1(2)] s1(1) a show ?thesis by blast
qed

theorem C1_Stop_without_session_witness:
  "\<not> IsMiniTraceActive (example_runtime\<lparr>the_trace := None\<rparr>) \<and>
   (\<exists>s'. Stop (example_runtime\<lparr>the_trace := None\<rparr>) = Inr s' \<and>
         fs s' = fs example_runtime \<and> classes s' = classes example_runtime)"
proof -
  let ?s = "example_runtime\<lparr>the_trace := None\<rparr>"
  have n: "\<not> IsMiniTraceActive ?s" by (simp add: IsMiniTraceActive_def)
  from C1_Stop_without_session [of ?s, THEN conjunct1, THEN mp, OF n]
  obtain s' where "Stop ?s = Inr s'" "fs s' = fs ?s" "classes s' = classes ?s" by blast
  then have "Stop ?s = Inr s' \<and> fs s' = fs example_runtime \<and> classes s' = classes example_runtime"
    by simp
  then have "\<exists>s'. Stop ?s = Inr s' \<and> fs s' = fs example_runtime \<and>
      classes s' = classes example_runtime" ..
  with n show ?thesis ..
qed

text \<open>
  Claim C1 as stated fails. The example process has a session, a marked class with a method
  whose coverage byte \<open>2\<close> is set, and an empty, writable coverage file. The first
  \<^verbatim>\<open>Stop\<close> clears \<^verbatim>\<open>the_trace_\<close>, the mode and the listener and changes nothing else: the
  pointer is null when \<^verbatim>\<open>DumpCoverageData(false)\<close> tests it. The second \<^verbatim>\<open>Stop\<close> adds the
  error line to the log. After both, the coverage file is still empty (no \<open>Dump\<close>
  envelope) and the byte is still set (no walk). The same \<^verbatim>\<open>DumpCoverageData(false)\<close>,
  called while the session exists, does write the envelope and the method's line
  (\<open>dump_while_active_example\<close>).
\<close>

theorem C1_counterexample:
  "IsMiniTraceActive example_runtime \<and>
   coverage_data_filename example_runtime = ''/data/mini_trace_10001_coverage.dat'' \<and>
   Stop example_runtime =
     Inr (example_runtime\<lparr>the_trace := None, method_tracing := False, listeners := []\<rparr>) \<and>
   Stop (example_runtime\<lparr>the_trace := None, method_tracing := False, listeners := []\<rparr>) =
     Inr (example_runtime\<lparr>the_trace := None, method_tracing := False, listeners := [],
            log := [(ERROR, ''Trace stop requested, but no trace currently running'')]\<rparr>) \<and>
   fs (example_runtime\<lparr>the_trace := None, method_tracing := False, listeners := [],
         log := [(ERROR, ''Trace stop requested, but no trace currently running'')]\<rparr>)
      ''/data/mini_trace_10001_coverage.dat'' =
     Some \<lparr>contents = [], can_read = True, can_write = True\<rparr> \<and>
   classes (example_runtime\<lparr>the_trace := None, method_tracing := False, listeners := [],
         log := [(ERROR, ''Trace stop requested, but no trace currently running'')]\<rparr>) =
     [example_class] \<and>
   map GetCoverageData (GetDeclaredMethods example_class) =
     [Some [0, 0, 7, 0, 0, 0, 0, 0, 0, 0, 0, 0]]"
  by (simp add: Stop_eq example_runtime_def example_class_def example_method_def LOG_def
      IsMiniTraceActive_def coverage_data_filename_def show_int_def
      show_dec_def show_base.simps digit_char_def)

text \<open>
  Claim C6. \<^verbatim>\<open>PostClassPrepare\<close> marks a class exactly when it is eligible: not an array
  class, not an interface, not primitive, not a proxy class, and with a dex location that
  does not begin with \<^verbatim>\<open>/system/framework/\<close> (a class already marked stays marked). An
  excluded class is returned as it is. And whatever requests are run (starts, stops,
  shutdowns, dumps, class loads, repeated \<^verbatim>\<open>PostClassPrepare\<close>), from a table in which the
  excluded classes are unmarked and without stubs and with newly loaded classes of that
  kind, every excluded class of the table is still unmarked and without stubs.
\<close>

theorem C6_class_filter:
  "(eligible k \<longleftrightarrow>
      \<not> IsArrayClass k \<and> \<not> IsInterface k \<and> \<not> IsPrimitive k \<and> \<not> IsProxyClass k \<and>
      take 18 (dex_location k) \<noteq> ''/system/framework/'') \<and>
   (klass_IsMiniTraceable (PostClassPrepare s k) \<longleftrightarrow> klass_IsMiniTraceable k \<or> eligible k) \<and>
   (\<not> klass_IsMiniTraceable k \<longrightarrow>
      (klass_IsMiniTraceable (PostClassPrepare s k) \<longleftrightarrow> eligible k)) \<and>
   (\<not> eligible k \<longrightarrow> PostClassPrepare s k = k) \<and>
   (run rs s = Inr s' \<longrightarrow>
    (\<forall>c \<in> set (classes s). \<not> eligible c \<longrightarrow>
        \<not> klass_IsMiniTraceable c \<and> \<not> stubs_installed c) \<longrightarrow>
    (\<forall>c. ReqClassPrepare c \<in> set rs \<longrightarrow> \<not> eligible c \<longrightarrow>
        \<not> klass_IsMiniTraceable c \<and> \<not> stubs_installed c) \<longrightarrow>
    (\<forall>c \<in> set (classes s'). \<not> eligible c \<longrightarrow>
        \<not> klass_IsMiniTraceable c \<and> \<not> stubs_installed c))"
proof -
  have a: "eligible k \<longleftrightarrow>
      \<not> IsArrayClass k \<and> \<not> IsInterface k \<and> \<not> IsPrimitive k \<and> \<not> IsProxyClass k \<and>
      take 18 (dex_location k) \<noteq> ''/system/framework/''"
  proof -
    have "length ''/system/framework/'' = 18" by simp
    then show ?thesis
      by (simp only: eligible_def has_system_prefix_def system_framework_prefix_def)
  qed
  have b: "klass_IsMiniTraceable (PostClassPrepare s k) \<longleftrightarrow> klass_IsMiniTraceable k \<or> eligible k"
    by (rule marked_PostClassPrepare)
  then have b': "\<not> klass_IsMiniTraceable k \<longrightarrow>
      (klass_IsMiniTraceable (PostClassPrepare s k) \<longleftrightarrow> eligible k)"
    by simp
  have c: "\<not> eligible k \<longrightarrow> PostClassPrepare s k = k"
    by (simp add: PostClassPrepare_excluded)
  have d: "run rs s = Inr s' \<longrightarrow>
    (\<forall>c \<in> set (classes s). \<not> eligible c \<longrightarrow>
        \<not> klass_IsMiniTraceable c \<and> \<not> stubs_installed c) \<longrightarrow>
    (\<forall>c. ReqClassPrepare c \<in> set rs \<longrightarrow> \<not> eligible c \<longrightarrow>
        \<not> klass_IsMiniTraceable c \<and> \<not> stubs_installed c) \<longrightarrow>
    (\<forall>c \<in> set (classes s'). \<not> eligible c \<longrightarrow>
        \<not> klass_IsMiniTraceable c \<and> \<not> stubs_installed c)"
  proof (intro impI)
    assume r: "run rs s = Inr s'"
      and i: "\<forall>c \<in> set (classes s). \<not> eligible c \<longrightarrow>
        \<not> klass_IsMiniTraceable c \<and> \<not> stubs_installed c"
      and l: "\<forall>c. ReqClassPrepare c \<in> set rs \<longrightarrow> \<not> eligible c \<longrightarrow>
        \<not> klass_IsMiniTraceable c \<and> \<not> stubs_installed c"
    from i have "excluded_untouched (classes s)"
      by (simp add: excluded_untouched_iff untouched_def)
    moreover from l have "\<And>c. ReqClassPrepare c \<in> set rs \<Longrightarrow> eligible c \<or> untouched c"
      by (auto simp: untouched_def)
    ultimately have "excluded_untouched (classes s')"
      using run_excluded_untouched [OF r] by blast
    then show "\<forall>c \<in> set (classes s'). \<not> eligible c \<longrightarrow>
        \<not> klass_IsMiniTraceable c \<and> \<not> stubs_installed c"
      by (simp add: excluded_untouched_iff untouched_def)
  qed
  show ?thesis by (intro conjI a b b' c d)
qed

theorem C6_class_filter_witness:
  "\<exists>s'. run [ReqStart, ReqStop, ReqStart] example_idle = Inr s' \<and>
     IsMiniTraceActive s' \<and>
     map eligible (classes example_idle) = [False, False, True] \<and>
     map klass_IsMiniTraceable (classes s') = [False, False, True] \<and>
     map stubs_installed (classes s') = [False, False, True] \<and>
     (\<forall>c \<in> set (classes s'). \<not> eligible c \<longrightarrow>
        \<not> klass_IsMiniTraceable c \<and> \<not> stubs_installed c)"
proof -
  from example_cycle obtain s'
    where r: "run [ReqStart, ReqStop, ReqStart] example_idle = Inr s'"
      and f: "IsMiniTraceActive s'"
        "map klass_IsMiniTraceable (classes s') = [False, False, True]"
        "map stubs_installed (classes s') = [False, False, True]"
    by (auto split: sum.splits)
  have e: "map eligible (classes example_idle) = [False, False, True]"
    by (simp add: example_idle_def example_klass_def eligible_def has_system_prefix_def
        system_framework_prefix_def)
  have i: "\<forall>c \<in> set (classes example_idle). \<not> eligible c \<longrightarrow>
        \<not> klass_IsMiniTraceable c \<and> \<not> stubs_installed c"
    by (simp add: example_idle_def example_klass_def)
  have l: "\<forall>c. ReqClassPrepare c \<in> set [ReqStart, ReqStop, ReqStart] \<longrightarrow> \<not> eligible c \<longrightarrow>
        \<not> klass_IsMiniTraceable c \<and> \<not> stubs_installed c"
    by simp
  note t = C6_class_filter [of "example_klass [] False" example_idle
      "[ReqStart, ReqStop, ReqStart]" s']
  note u = t [THEN conjunct2, THEN conjunct2, THEN conjunct2, THEN conjunct2]
  from u [THEN mp, OF r, THEN mp, OF i, THEN mp, OF l]
  have x: "\<forall>c \<in> set (classes s'). \<not> eligible c \<longrightarrow>
        \<not> klass_IsMiniTraceable c \<and> \<not> stubs_installed c" .
  show ?thesis
    by (rule exI [of _ s']) (intro conjI r f e x)
qed

text \<open>
  Claim C7. For an eligible class, \<^verbatim>\<open>PostClassPrepare\<close> marks it, and installs its stubs
  exactly when a session exists at the call: with a session the class comes back marked and
  with stubs, without one it comes back marked and otherwise unchanged. The call is
  idempotent, it never clears the flag, and in every state reached from a state without a
  session it changes nothing of a marked class of the table; no request clears the flag of
  a class of the table.
\<close>

theorem C7_stubs_iff_active:
  "(eligible k \<longrightarrow>
      klass_IsMiniTraceable (PostClassPrepare s k) \<and>
      (stubs_installed (PostClassPrepare s k) \<longleftrightarrow> stubs_installed k \<or> IsMiniTraceActive s)) \<and>
   (eligible k \<and> IsMiniTraceActive s \<longrightarrow>
      PostClassPrepare s k = k\<lparr>klass_IsMiniTraceable := True, stubs_installed := True\<rparr>) \<and>
   (eligible k \<and> \<not> IsMiniTraceActive s \<longrightarrow>
      PostClassPrepare s k = k\<lparr>klass_IsMiniTraceable := True\<rparr>) \<and>
   PostClassPrepare s (PostClassPrepare s k) = PostClassPrepare s k \<and>
   (klass_IsMiniTraceable k \<longrightarrow> klass_IsMiniTraceable (PostClassPrepare s k)) \<and>
   (run rs s0 = Inr s \<and> \<not> IsMiniTraceActive s0 \<and> c \<in> set (classes s) \<and>
      klass_IsMiniTraceable c \<longrightarrow> PostClassPrepare s c = c) \<and>
   (run rs s0 = Inr s \<and> i < length (classes s0) \<and> klass_IsMiniTraceable (classes s0 ! i) \<longrightarrow>
      i < length (classes s) \<and> klass_IsMiniTraceable (classes s ! i))"
proof -
  have a: "eligible k \<longrightarrow>
      klass_IsMiniTraceable (PostClassPrepare s k) \<and>
      (stubs_installed (PostClassPrepare s k) \<longleftrightarrow> stubs_installed k \<or> IsMiniTraceActive s)"
    by (simp add: marked_PostClassPrepare stubs_PostClassPrepare)
  have b: "eligible k \<and> IsMiniTraceActive s \<longrightarrow>
      PostClassPrepare s k = k\<lparr>klass_IsMiniTraceable := True, stubs_installed := True\<rparr>"
    by (simp add: PostClassPrepare_eligible)
  have c: "eligible k \<and> \<not> IsMiniTraceActive s \<longrightarrow>
      PostClassPrepare s k = k\<lparr>klass_IsMiniTraceable := True\<rparr>"
    by (simp add: PostClassPrepare_eligible)
  have d: "PostClassPrepare s (PostClassPrepare s k) = PostClassPrepare s k"
    by (rule PostClassPrepare_idem)
  have e: "klass_IsMiniTraceable k \<longrightarrow> klass_IsMiniTraceable (PostClassPrepare s k)"
    by (simp add: marked_PostClassPrepare)
  have f: "run rs s0 = Inr s \<and> \<not> IsMiniTraceActive s0 \<and> c \<in> set (classes s) \<and>
      klass_IsMiniTraceable c \<longrightarrow> PostClassPrepare s c = c"
  proof (intro impI, elim conjE)
    assume r: "run rs s0 = Inr s" and n: "\<not> IsMiniTraceActive s0"
      and m: "c \<in> set (classes s)" "klass_IsMiniTraceable c"
    show "PostClassPrepare s c = c"
    proof (cases "eligible c")
      case False
      then show ?thesis by (rule PostClassPrepare_excluded)
    next
      case True
      show ?thesis
      proof (cases "IsMiniTraceActive s")
        case False
        with m(2) show ?thesis by (simp add: PostClassPrepare_settled)
      next
        case act: True
        from n have "active_instrumented s0" by (simp add: active_instrumented_def)
        from run_active_instrumented [OF r this] True act m(1)
        have "stubs_installed c" by (auto simp: active_instrumented_iff)
        with m(2) show ?thesis by (simp add: PostClassPrepare_settled)
      qed
    qed
  qed
  have g: "run rs s0 = Inr s \<and> i < length (classes s0) \<and> klass_IsMiniTraceable (classes s0 ! i) \<longrightarrow>
      i < length (classes s) \<and> klass_IsMiniTraceable (classes s ! i)"
  proof (intro impI, elim conjE)
    assume "run rs s0 = Inr s" "i < length (classes s0)" "klass_IsMiniTraceable (classes s0 ! i)"
    with run_marked [of rs s0 s i]
    show "i < length (classes s) \<and> klass_IsMiniTraceable (classes s ! i)" by simp
  qed
  show ?thesis by (intro conjI a b c d e f g)
qed

theorem C7_stubs_iff_active_witness:
  "\<exists>s. run [ReqStart, ReqStop, ReqStart] example_idle = Inr s \<and>
     IsMiniTraceActive s \<and> \<not> IsMiniTraceActive example_idle \<and>
     eligible (example_klass ''/data/app/com.example/base.apk'' False) \<and>
     PostClassPrepare s (example_klass ''/data/app/com.example/base.apk'' False) =
       (example_klass ''/data/app/com.example/base.apk'' False)
         \<lparr>klass_IsMiniTraceable := True, stubs_installed := True\<rparr> \<and>
     PostClassPrepare example_idle (example_klass ''/data/app/com.example/base.apk'' False) =
       (example_klass ''/data/app/com.example/base.apk'' False)\<lparr>klass_IsMiniTraceable := True\<rparr> \<and>
     klass_IsMiniTraceable (classes s ! 2) \<and>
     PostClassPrepare s (classes s ! 2) = classes s ! 2"
proof -
  let ?k = "example_klass ''/data/app/com.example/base.apk'' False"
  let ?rs = "[ReqStart, ReqStop, ReqStart]"
  from example_cycle obtain s
    where r: "run ?rs example_idle = Inr s"
      and f: "IsMiniTraceActive s"
        "map klass_IsMiniTraceable (classes s) = [False, False, True]"
    by (auto split: sum.splits)
  have n: "\<not> IsMiniTraceActive example_idle"
    by (simp add: IsMiniTraceActive_def example_idle_def)
  have e: "eligible ?k"
    by (simp add: example_klass_def eligible_def has_system_prefix_def
        system_framework_prefix_def)
  from f(2) have l: "length (classes s) = 3"
    using length_map [of klass_IsMiniTraceable "classes s"] by simp
  from f(2) l have m: "klass_IsMiniTraceable (classes s ! 2)"
    using nth_map [of 2 "classes s" klass_IsMiniTraceable] by simp
  from l have mem: "classes s ! 2 \<in> set (classes s)" by simp
  note t1 = C7_stubs_iff_active [of ?k s ?rs example_idle "classes s ! 2" 0]
  note t2 = C7_stubs_iff_active [of ?k example_idle ?rs example_idle "classes s ! 2" 0]
  from t1 [THEN conjunct2, THEN conjunct1] e f(1)
  have p1: "PostClassPrepare s ?k = ?k\<lparr>klass_IsMiniTraceable := True, stubs_installed := True\<rparr>"
    by simp
  from t2 [THEN conjunct2, THEN conjunct2, THEN conjunct1] e n
  have p2: "PostClassPrepare example_idle ?k = ?k\<lparr>klass_IsMiniTraceable := True\<rparr>"
    by simp
  from t1 [THEN conjunct2, THEN conjunct2, THEN conjunct2, THEN conjunct2, THEN conjunct2,
      THEN conjunct1] r n mem m
  have p3: "PostClassPrepare s (classes s ! 2) = classes s ! 2"
    by simp
  show ?thesis
    by (rule exI [of _ s]) (intro conjI r f(1) n e p1 p2 m p3)
qed

end
